theory Spec2Isabelle
  imports Complex_Main
begin

section \<open>Program state\<close>

text \<open>
  The compiler keeps its whole state in globals (jlang.cpp): the lexer's lookahead
  character and its two result slots, the parser's current token, the LLVM module, the
  builder's insertion point and the per-function scope. The model threads one record
  through every function; stdin is the list of characters not yet read and stdout the
  list of lines printed so far.
\<close>

subsection \<open>The IR objects the lowering builds\<close>

text \<open>
  IR values are kept as terms: a constant, an argument, or the instruction that a
  \<open>Create...\<close> call of the builder built. \<open>ConstantInt\<close> is a constant of the one-bit
  type, the result of a comparison of constants. A function handle is the name under
  which the module registers the function, and a function argument is referred to by
  its function and position.
\<close>

datatype Value =
    ConstantFP real
  | ConstantInt bool
  | Argument string nat
  | FAdd Value Value
  | FSub Value Value
  | FMul Value Value
  | FCmpULT Value Value
  | UIToFP Value
  | Call string "Value list"
  | Ret Value

record Function =
  arg_names :: "string list"
  blocks :: "Value list list"

record Module =
  FunctionList :: "(string \<times> Function) list"
  LastUnique :: nat

record state =
  input :: string
  out :: "string list"
  LastChar :: int
  IdentifierStr :: string
  NumVal :: real
  CurTok :: int
  TheModule :: Module
  InsertPoint :: "(string \<times> nat) option"
  NamedValues :: "(string \<times> Value option) list"

section \<open>Lexer\<close>

abbreviation EOF :: int where "EOF \<equiv> - 1"

abbreviation tok_eof :: int where "tok_eof \<equiv> - 1"

abbreviation tok_def :: int where "tok_def \<equiv> - 2"

abbreviation tok_extern :: int where "tok_extern \<equiv> - 3"

abbreviation tok_identifier :: int where "tok_identifier \<equiv> - 4"

abbreviation tok_number :: int where "tok_number \<equiv> - 5"

text \<open>The character classes of \<open>cctype\<close> in the "C" locale, on \<open>int\<close> as in C.\<close>

definition isspace :: "int \<Rightarrow> bool" where
  "isspace c \<longleftrightarrow> c = 32 \<or> (9 \<le> c \<and> c \<le> 13)"

definition isalpha :: "int \<Rightarrow> bool" where
  "isalpha c \<longleftrightarrow> (65 \<le> c \<and> c \<le> 90) \<or> (97 \<le> c \<and> c \<le> 122)"

definition isdigit :: "int \<Rightarrow> bool" where
  "isdigit c \<longleftrightarrow> 48 \<le> c \<and> c \<le> 57"

definition isalnum :: "int \<Rightarrow> bool" where
  "isalnum c \<longleftrightarrow> isalpha c \<or> isdigit c"

definition isascii :: "int \<Rightarrow> bool" where
  "isascii c \<longleftrightarrow> 0 \<le> c \<and> c \<le> 127"

text \<open>\<open>getchar()\<close>: the next byte of stdin as a non-negative \<open>int\<close>, or \<open>EOF\<close>.\<close>

definition getchar :: "state \<Rightarrow> int \<times> state" where
  "getchar s = (case input s of [] \<Rightarrow> (EOF, s) | c # cs \<Rightarrow> (of_char c, s\<lparr>input := cs\<rparr>))"

text \<open>The statement \<open>LastChar = getchar();\<close>.\<close>

definition read_LastChar :: "state \<Rightarrow> state" where
  "read_LastChar s = (case getchar s of (c, s') \<Rightarrow> s'\<lparr>LastChar := c\<rparr>)"

text \<open>
  \<open>std::strtod\<close> on the text the lexer would hand it: the value of the longest prefix
  \<open>digits [. digits]\<close>. A C double is modelled by the real number it denotes; rounding
  is not modelled.
\<close>

definition is_digit_char :: "char \<Rightarrow> bool" where
  "is_digit_char c \<longleftrightarrow> isdigit (of_char c)"

definition decimal :: "string \<Rightarrow> nat" where
  "decimal ds = foldl (\<lambda>a c. 10 * a + (of_char c - 48)) 0 ds"

definition strtod :: "string \<Rightarrow> real" where
  "strtod str =
     (let ip = takeWhile is_digit_char str;
          r = dropWhile is_digit_char str;
          fp = (case r of [] \<Rightarrow> [] | c # r' \<Rightarrow> if c = CHR ''.'' then takeWhile is_digit_char r' else [])
      in real (decimal ip) + real (decimal fp) / 10 ^ length fp)"

text \<open>\<open>while (std::isspace(LastChar)) LastChar = getchar();\<close>\<close>

function skip_spaces :: "state \<Rightarrow> state" where
  "skip_spaces s = (if isspace (LastChar s) then skip_spaces (read_LastChar s) else s)"
  by pat_completeness auto
termination
  by (relation "measure (\<lambda>s. length (input s) + (if isspace (LastChar s) then 1 else 0))")
     (auto simp: read_LastChar_def getchar_def isspace_def split: list.splits)

text \<open>\<open>while (std::isalnum(LastChar = getchar())) IdentifierStr += LastChar;\<close>\<close>

function identifier_loop :: "state \<Rightarrow> state" where
  "identifier_loop s =
     (let s1 = read_LastChar s
      in if isalnum (LastChar s1)
         then identifier_loop (s1\<lparr>IdentifierStr := IdentifierStr s1 @ [char_of (LastChar s1)]\<rparr>)
         else s1)"
  by pat_completeness auto
termination
  by (relation "measure (\<lambda>s. length (input s))")
     (auto simp: read_LastChar_def getchar_def isalnum_def isalpha_def isdigit_def
           split: list.splits)

text \<open>
  \<open>do { NumStr += LastChar; LastChar = getchar(); }
   while (std::isdigit((LastChar) || LastChar == '.'));\<close>
  The argument of \<open>isdigit\<close> is the truth value of the disjunction, 0 or 1.
\<close>

definition numeral_test :: "int \<Rightarrow> bool" where
  "numeral_test c \<longleftrightarrow> isdigit (if c \<noteq> 0 \<or> c = 46 then 1 else 0)"

function number_loop :: "string \<Rightarrow> state \<Rightarrow> string \<times> state" where
  "number_loop NumStr s =
     (let NumStr' = NumStr @ [char_of (LastChar s)];
          s1 = read_LastChar s
      in if numeral_test (LastChar s1) then number_loop NumStr' s1 else (NumStr', s1))"
  by pat_completeness auto
termination
  by (relation "{}") (auto simp: numeral_test_def isdigit_def split: if_splits)

text \<open>
  \<open>do { LastChar = getchar(); }
   while (LastChar != EOF && LastChar != '\n' && LastChar != '\r');\<close>
\<close>

function comment_loop :: "state \<Rightarrow> state" where
  "comment_loop s =
     (let s1 = read_LastChar s
      in if LastChar s1 \<noteq> EOF \<and> LastChar s1 \<noteq> 10 \<and> LastChar s1 \<noteq> 13
         then comment_loop s1 else s1)"
  by pat_completeness auto
termination
  by (relation "measure (\<lambda>s. length (input s))")
     (auto simp: read_LastChar_def getchar_def split: list.splits)

declare skip_spaces.simps [simp del] identifier_loop.simps [simp del]
  number_loop.simps [simp del] comment_loop.simps [simp del]

lemma skip_spaces_input_le: "length (input (skip_spaces s)) \<le> length (input s)"
proof (induction s rule: skip_spaces.induct)
  case (1 s)
  show ?case
  proof (cases "isspace (LastChar s)")
    case True
    have "length (input (read_LastChar s)) \<le> length (input s)"
      by (simp add: read_LastChar_def getchar_def split: list.splits)
    with 1 True show ?thesis by (subst skip_spaces.simps) simp
  next
    case False
    then show ?thesis by (subst skip_spaces.simps) simp
  qed
qed

lemma read_LastChar_consumes:
  "LastChar (read_LastChar s) \<noteq> EOF \<Longrightarrow> length (input (read_LastChar s)) < length (input s)"
  by (simp add: read_LastChar_def getchar_def split: list.splits)

lemma read_LastChar_input_le: "length (input (read_LastChar s)) \<le> length (input s)"
  by (simp add: read_LastChar_def getchar_def split: list.splits)

lemma comment_loop_consumes:
  "LastChar (comment_loop s) \<noteq> EOF \<Longrightarrow> length (input (comment_loop s)) < length (input s)"
proof (induction s rule: comment_loop.induct)
  case (1 s)
  let ?s1 = "read_LastChar s"
  show ?case
  proof (cases "LastChar ?s1 \<noteq> EOF \<and> LastChar ?s1 \<noteq> 10 \<and> LastChar ?s1 \<noteq> 13")
    case True
    then have eq: "comment_loop s = comment_loop ?s1"
      by (subst comment_loop.simps) (simp add: Let_def)
    from 1 True eq have "length (input (comment_loop s)) < length (input ?s1)"
      by simp
    with read_LastChar_input_le [of s] show ?thesis by simp
  next
    case False
    then have eq: "comment_loop s = ?s1"
      by (subst comment_loop.simps) (auto simp: Let_def)
    with 1(2) read_LastChar_consumes [of s] show ?thesis by simp
  qed
qed

text \<open>
  The last statements of \<open>gettok\<close>: end of input, or the pending character itself as
  the token.
\<close>

definition eof_or_char :: "state \<Rightarrow> int \<times> state" where
  "eof_or_char s =
     (if LastChar s = EOF then (tok_eof, s)
      else (LastChar s, read_LastChar s))"

function gettok :: "state \<Rightarrow> int \<times> state" where
  "gettok s =
     (let s1 = skip_spaces s
      in if isalpha (LastChar s1) then
           (let s2 = identifier_loop (s1\<lparr>IdentifierStr := [char_of (LastChar s1)]\<rparr>)
            in if IdentifierStr s2 = ''def'' then (tok_def, s2)
               else if IdentifierStr s2 = ''extern'' then (tok_extern, s2)
               else (tok_identifier, s2))
         else if numeral_test (LastChar s1) then
           (case number_loop [] s1 of
              (NumStr, s2) \<Rightarrow> (tok_number, s2\<lparr>NumVal := strtod NumStr\<rparr>))
         else if LastChar s1 = 35 then
           (let s2 = comment_loop s1
            in if LastChar s2 \<noteq> EOF then gettok s2 else eof_or_char s2)
         else eof_or_char s1)"
  by pat_completeness auto
termination
proof (relation "measure (\<lambda>s. length (input s))")
  show "wf (measure (\<lambda>s. length (input s)))" by simp
next
  fix s s1 s2
  assume "s1 = skip_spaces s" and "s2 = comment_loop s1" and "LastChar s2 \<noteq> EOF"
  then have "length (input s2) < length (input s1)" and "length (input s1) \<le> length (input s)"
    using comment_loop_consumes [of s1] skip_spaces_input_le [of s] by blast+
  then show "(s2, s) \<in> measure (\<lambda>s. length (input s))" by simp
qed

declare gettok.simps [simp del]

section \<open>Abstract syntax\<close>

text \<open>
  The children of a \<open>BinaryExprAST\<close> are \<open>std::unique_ptr<ExprAST>\<close>, which may be
  null: \<open>None\<close>. The argument vector of a \<open>CallExprAST\<close> and the two fields of a
  \<open>FunctionAST\<close> only ever receive pointers that were tested to be non-null, so they
  hold the nodes themselves.
\<close>

datatype ExprAST =
    NumberExprAST real
  | VariableExprAST string
  | BinaryExprAST char "ExprAST option" "ExprAST option"
  | CallExprAST string "ExprAST list"

record PrototypeAST =
  Name :: string
  Args :: "string list"

record FunctionAST =
  Proto :: PrototypeAST
  Body :: ExprAST

section \<open>Parser\<close>

definition getNextTok :: "state \<Rightarrow> state" where
  "getNextTok s = (case gettok s of (t, s') \<Rightarrow> s'\<lparr>CurTok := t\<rparr>)"

text \<open>
  \<open>BinopPrecedence\<close> as \<open>main\<close> fills it. \<open>operator[]\<close> on a missing key yields 0 (the
  entry it inserts is never observed otherwise).
\<close>

definition BinopPrecedence :: "char \<Rightarrow> int" where
  "BinopPrecedence c =
     (if c = CHR ''<'' then 10
      else if c = CHR ''+'' then 20
      else if c = CHR ''-'' then 20
      else if c = CHR ''*'' then 40
      else 0)"

definition GetTokPrecedence :: "state \<Rightarrow> int" where
  "GetTokPrecedence s =
     (if \<not> isascii (CurTok s) then - 1
      else let TokPrec = BinopPrecedence (char_of (CurTok s))
           in if TokPrec \<le> 0 then - 1 else TokPrec)"

text \<open>\<open>LogError\<close> prints one line; its callers return the null pointer.\<close>

definition LogError :: "string \<Rightarrow> state \<Rightarrow> state" where
  "LogError Str s = s\<lparr>out := out s @ [''Log Error: '' @ Str]\<rparr>"

definition ParseNumberExpr :: "state \<Rightarrow> ExprAST option \<times> state" where
  "ParseNumberExpr s = (Some (NumberExprAST (NumVal s)), getNextTok s)"

text \<open>
  The expression parser is mutually recursive; the first argument bounds the depth of
  calls, and the outer \<open>None\<close> says that the bound was reached. The inner option is the
  returned pointer. In \<open>ParsePrimary\<close> the \<open>default\<close> label comes first and has no
  \<open>return\<close>, so control falls into the \<open>tok_number\<close> case. In \<open>ParseBinOpRHS\<close> the
  recursive call is handed \<open>std::move(LHS)\<close>, which leaves \<open>LHS\<close> null.
\<close>

fun ParsePrimary :: "nat \<Rightarrow> state \<Rightarrow> (ExprAST option \<times> state) option"
  and ParseIdentifierExpr :: "nat \<Rightarrow> state \<Rightarrow> (ExprAST option \<times> state) option"
  and ParseArgs :: "nat \<Rightarrow> ExprAST list \<Rightarrow> state \<Rightarrow> (ExprAST list option \<times> state) option"
  and ParseParenExpr :: "nat \<Rightarrow> state \<Rightarrow> (ExprAST option \<times> state) option"
  and ParseBinOpRHS :: "nat \<Rightarrow> int \<Rightarrow> ExprAST option \<Rightarrow> state \<Rightarrow> (ExprAST option \<times> state) option"
  and ParseExpression :: "nat \<Rightarrow> state \<Rightarrow> (ExprAST option \<times> state) option"
where
  "ParsePrimary 0 s = None"
| "ParsePrimary (Suc n) s =
     (if CurTok s \<noteq> tok_number \<and> CurTok s \<noteq> tok_identifier \<and> CurTok s \<noteq> 40
      then Some (ParseNumberExpr (LogError ''Unkown token while parsing!'' s))
      else if CurTok s = tok_number then Some (ParseNumberExpr s)
      else if CurTok s = tok_identifier then ParseIdentifierExpr n s
      else ParseParenExpr n s)"
| "ParseIdentifierExpr 0 s = None"
| "ParseIdentifierExpr (Suc n) s =
     (let IdName = IdentifierStr s;
          s1 = getNextTok s
      in if CurTok s1 \<noteq> 40 then Some (Some (VariableExprAST IdName), s1)
         else let s2 = getNextTok s1
              in if CurTok s2 \<noteq> 41 then
                   (case ParseArgs n [] s2 of
                      None \<Rightarrow> None
                    | Some (None, s3) \<Rightarrow> Some (None, s3)
                    | Some (Some args, s3) \<Rightarrow>
                        Some (Some (CallExprAST IdName args), getNextTok s3))
                 else Some (Some (CallExprAST IdName []), getNextTok s2))"
| "ParseArgs 0 args s = None"
| "ParseArgs (Suc n) args s =
     (case ParseExpression n s of
        None \<Rightarrow> None
      | Some (None, s1) \<Rightarrow> Some (None, s1)
      | Some (Some arg, s1) \<Rightarrow>
          (let args' = args @ [arg]
           in if CurTok s1 = 41 then Some (Some args', s1)
              else if CurTok s1 \<noteq> 44
              then Some (None, LogError (''Expected ')' or ',' in the argument list'') s1)
              else ParseArgs n args' (getNextTok s1)))"
| "ParseParenExpr 0 s = None"
| "ParseParenExpr (Suc n) s =
     (let s1 = getNextTok s
      in case ParseExpression n s1 of
           None \<Rightarrow> None
         | Some (None, s2) \<Rightarrow> Some (None, s2)
         | Some (Some V, s2) \<Rightarrow>
             if CurTok s2 \<noteq> 41 then Some (None, LogError (''Expected ')'' @ [CHR 0x27]) s2)
             else Some (Some V, getNextTok s2))"
| "ParseBinOpRHS 0 ExprPrec LHS s = None"
| "ParseBinOpRHS (Suc n) ExprPrec LHS s =
     (let TokPrec = GetTokPrecedence s
      in if TokPrec < ExprPrec then Some (LHS, s)
         else let BinOp = CurTok s;
                  s1 = getNextTok s
              in case ParsePrimary n s1 of
                   None \<Rightarrow> None
                 | Some (None, s2) \<Rightarrow> Some (None, s2)
                 | Some (Some RHS, s2) \<Rightarrow>
                     (let NextPrec = GetTokPrecedence s2
                      in if TokPrec < NextPrec then
                           (case ParseBinOpRHS n (TokPrec + 1) LHS s2 of
                              None \<Rightarrow> None
                            | Some (None, s3) \<Rightarrow> Some (None, s3)
                            | Some (Some RHS', s3) \<Rightarrow>
                                ParseBinOpRHS n ExprPrec
                                  (Some (BinaryExprAST (char_of BinOp) None (Some RHS'))) s3)
                         else ParseBinOpRHS n ExprPrec
                                (Some (BinaryExprAST (char_of BinOp) LHS (Some RHS))) s2))"
| "ParseExpression 0 s = None"
| "ParseExpression (Suc n) s =
     (case ParsePrimary n s of
        None \<Rightarrow> None
      | Some (None, s1) \<Rightarrow> Some (None, s1)
      | Some (Some LHS, s1) \<Rightarrow> ParseBinOpRHS n 0 (Some LHS) s1)"

declare ParsePrimary.simps [simp del] ParseIdentifierExpr.simps [simp del]
  ParseArgs.simps [simp del] ParseParenExpr.simps [simp del]
  ParseBinOpRHS.simps [simp del] ParseExpression.simps [simp del]

text \<open>
  The characters left to read, counting the lookahead. Every token other than
  \<open>tok_eof\<close> uses up at least one of them.
\<close>

definition pending :: "state \<Rightarrow> nat" where
  "pending s = length (input s) + (if LastChar s = EOF then 0 else 1)"

lemma read_LastChar_pending: "LastChar s \<noteq> EOF \<Longrightarrow> pending (read_LastChar s) < pending s"
  by (simp add: pending_def read_LastChar_def getchar_def split: list.splits)

lemma read_LastChar_pending_le: "pending (read_LastChar s) \<le> pending s"
  by (simp add: pending_def read_LastChar_def getchar_def split: list.splits)

lemma skip_spaces_pending: "pending (skip_spaces s) \<le> pending s"
proof (induction s rule: skip_spaces.induct)
  case (1 s)
  show ?case
  proof (cases "isspace (LastChar s)")
    case True
    with 1 read_LastChar_pending_le [of s] show ?thesis
      by (subst skip_spaces.simps) simp
  next
    case False
    then show ?thesis by (subst skip_spaces.simps) simp
  qed
qed

lemma identifier_loop_pending: "pending (identifier_loop s) \<le> pending (read_LastChar s)"
proof (induction s rule: identifier_loop.induct)
  case (1 s)
  let ?s1 = "read_LastChar s"
  let ?s2 = "?s1\<lparr>IdentifierStr := IdentifierStr ?s1 @ [char_of (LastChar ?s1)]\<rparr>"
  show ?case
  proof (cases "isalnum (LastChar ?s1)")
    case True
    then have eq: "identifier_loop s = identifier_loop ?s2"
      by (subst identifier_loop.simps) (simp add: Let_def)
    have "read_LastChar ?s2 = (read_LastChar ?s1)\<lparr>IdentifierStr := IdentifierStr ?s1 @ [char_of (LastChar ?s1)]\<rparr>"
      by (simp add: read_LastChar_def getchar_def split: list.splits)
    then have "pending (read_LastChar ?s2) = pending (read_LastChar ?s1)"
      by (simp add: pending_def)
    with 1 [OF refl True] eq read_LastChar_pending_le [of ?s1] show ?thesis by simp
  next
    case False
    then show ?thesis by (subst identifier_loop.simps) (simp add: Let_def)
  qed
qed

lemma comment_loop_pending: "pending (comment_loop s) \<le> pending s"
proof (induction s rule: comment_loop.induct)
  case (1 s)
  let ?s1 = "read_LastChar s"
  show ?case
  proof (cases "LastChar ?s1 \<noteq> EOF \<and> LastChar ?s1 \<noteq> 10 \<and> LastChar ?s1 \<noteq> 13")
    case True
    then have "comment_loop s = comment_loop ?s1"
      by (subst comment_loop.simps) (simp add: Let_def)
    with 1 True read_LastChar_pending_le [of s] show ?thesis by simp
  next
    case False
    then have "comment_loop s = ?s1"
      by (subst comment_loop.simps) (auto simp: Let_def)
    with read_LastChar_pending_le [of s] show ?thesis by simp
  qed
qed

lemma numeral_test_False [simp]: "\<not> numeral_test c"
  by (simp add: numeral_test_def isdigit_def)

lemma gettok_unfold:
  "gettok s =
     (let s1 = skip_spaces s
      in if isalpha (LastChar s1) then
           (let s2 = identifier_loop (s1\<lparr>IdentifierStr := [char_of (LastChar s1)]\<rparr>)
            in if IdentifierStr s2 = ''def'' then (tok_def, s2)
               else if IdentifierStr s2 = ''extern'' then (tok_extern, s2)
               else (tok_identifier, s2))
         else if LastChar s1 = 35 then
           (let s2 = comment_loop s1
            in if LastChar s2 \<noteq> EOF then gettok s2 else (tok_eof, s2))
         else eof_or_char s1)"
  by (subst gettok.simps) (simp add: Let_def eof_or_char_def)

lemma gettok_consumes:
  "fst (gettok s) \<noteq> tok_eof \<Longrightarrow> pending (snd (gettok s)) < pending s"
proof (induction s rule: gettok.induct)
  case (1 s)
  note IH = 1(1) and tok = 1(2)
  let ?s1 = "skip_spaces s"
  have le: "pending ?s1 \<le> pending s" by (rule skip_spaces_pending)
  show ?case
  proof (cases "isalpha (LastChar ?s1)")
    case True
    let ?s1' = "?s1\<lparr>IdentifierStr := [char_of (LastChar ?s1)]\<rparr>"
    have "snd (gettok s) = identifier_loop ?s1'"
      using True by (subst gettok_unfold) (simp add: Let_def)
    moreover have "pending (identifier_loop ?s1') \<le> pending (read_LastChar ?s1')"
      by (rule identifier_loop_pending)
    moreover have "LastChar ?s1' \<noteq> EOF" using True by (auto simp: isalpha_def)
    then have "pending (read_LastChar ?s1') < pending ?s1'" by (rule read_LastChar_pending)
    moreover have "pending ?s1' = pending ?s1" by (simp add: pending_def)
    ultimately show ?thesis using le by simp
  next
    case nalpha: False
    show ?thesis
    proof (cases "LastChar ?s1 = 35")
      case True
      let ?s2 = "comment_loop ?s1"
      show ?thesis
      proof (cases "LastChar ?s2 \<noteq> EOF")
        case ne: True
        have eq: "gettok s = gettok ?s2"
          using nalpha True ne by (subst gettok_unfold) (simp add: Let_def)
        with tok have "fst (gettok ?s2) \<noteq> tok_eof" by simp
        with IH [OF refl nalpha _ True refl ne] have "pending (snd (gettok ?s2)) < pending ?s2"
          by simp
        with eq comment_loop_pending [of ?s1] le show ?thesis by simp
      next
        case False
        with nalpha True have "fst (gettok s) = tok_eof"
          by (subst gettok_unfold) (simp add: Let_def)
        with tok show ?thesis by simp
      qed
    next
      case False
      with nalpha have eq: "gettok s = eof_or_char ?s1"
        by (subst gettok_unfold) (simp add: Let_def)
      with tok have ne: "LastChar ?s1 \<noteq> EOF"
        by (auto simp: eof_or_char_def split: if_splits)
      with eq have "snd (gettok s) = read_LastChar ?s1" by (simp add: eof_or_char_def)
      with read_LastChar_pending [OF ne] le show ?thesis by simp
    qed
  qed
qed

text \<open>
  \<open>while (getNextTok() == tok_identifier) ArgNames.push_back(IdentifierStr);\<close>
  The loop ends because an identifier token uses up input (\<open>gettok_consumes\<close>).
\<close>

function prototype_args :: "string list \<Rightarrow> state \<Rightarrow> string list \<times> state" where
  "prototype_args ArgNames s =
     (let s1 = getNextTok s
      in if CurTok s1 = tok_identifier
         then prototype_args (ArgNames @ [IdentifierStr s1]) s1
         else (ArgNames, s1))"
  by pat_completeness auto
termination
proof (relation "measure (\<lambda>(ArgNames, s). pending s)")
  show "wf (measure (\<lambda>(ArgNames, s). pending s))" by simp
next
  fix ArgNames :: "string list" and s s1 :: state
  assume s1: "s1 = getNextTok s" and tok: "CurTok s1 = tok_identifier"
  from s1 have "CurTok s1 = fst (gettok s)" and p: "pending s1 = pending (snd (gettok s))"
    by (simp_all add: getNextTok_def pending_def split: prod.splits)
  with tok have "fst (gettok s) \<noteq> tok_eof" by simp
  then have "pending (snd (gettok s)) < pending s" by (rule gettok_consumes)
  with p show "((ArgNames @ [IdentifierStr s1], s1), (ArgNames, s)) \<in> measure (\<lambda>(ArgNames, s). pending s)"
    by simp
qed

declare prototype_args.simps [simp del]

definition ParsePrototype :: "state \<Rightarrow> PrototypeAST option \<times> state" where
  "ParsePrototype s =
     (if CurTok s \<noteq> tok_identifier
      then (None, LogError ''Expected fucntion name in prototype'' s)
      else let Fname = IdentifierStr s;
               s1 = getNextTok s
           in if CurTok s1 \<noteq> 40
              then (None, LogError ''Expected '(' name in prototype'' s1)
              else case prototype_args [] s1 of
                     (ArgNames, s2) \<Rightarrow>
                       if CurTok s2 \<noteq> 41
                       then (None, LogError ''Expected ')' name in prototype'' s2)
                       else (Some \<lparr>Name = Fname, Args = ArgNames\<rparr>, getNextTok s2))"

definition ParseDefinition :: "nat \<Rightarrow> state \<Rightarrow> (FunctionAST option \<times> state) option" where
  "ParseDefinition n s =
     (case ParsePrototype (getNextTok s) of
        (None, s1) \<Rightarrow> Some (None, s1)
      | (Some P, s1) \<Rightarrow>
          (case ParseExpression n s1 of
             None \<Rightarrow> None
           | Some (None, s2) \<Rightarrow> Some (None, s2)
           | Some (Some E, s2) \<Rightarrow> Some (Some \<lparr>Proto = P, Body = E\<rparr>, s2)))"

definition ParseExtern :: "state \<Rightarrow> PrototypeAST option \<times> state" where
  "ParseExtern s = ParsePrototype (getNextTok s)"

definition ParseTopLevelExpr :: "nat \<Rightarrow> state \<Rightarrow> (FunctionAST option \<times> state) option" where
  "ParseTopLevelExpr n s =
     (case ParseExpression n s of
        None \<Rightarrow> None
      | Some (None, s1) \<Rightarrow> Some (None, s1)
      | Some (Some E, s1) \<Rightarrow>
          Some (Some \<lparr>Proto = \<lparr>Name = ''__anon_expr'', Args = []\<rparr>, Body = E\<rparr>, s1))"

text \<open>
  The state in which \<open>main\<close> enters \<open>MainLoop\<close> on the source text \<open>src\<close>: the statics
  at their initial values (\<open>LastChar\<close> a blank), the first token read, an empty module.
\<close>

definition initial :: "string \<Rightarrow> state" where
  "initial src =
     \<lparr>input = src, out = [], LastChar = 32, IdentifierStr = [], NumVal = 0, CurTok = 0,
      TheModule = \<lparr>FunctionList = [], LastUnique = 0\<rparr>, InsertPoint = None,
      NamedValues = []\<rparr>"

definition start :: "string \<Rightarrow> state" where
  "start src = getNextTok (initial src)"

section \<open>The LLVM objects used by the lowering\<close>

text \<open>
  LLVM is a library outside this repository; the model keeps what the lowering can
  observe of it. A module registers each function under a name that is unique in the
  module, and a function registers its arguments under names unique in the function.
  A name that is already taken is replaced by the name followed by a running counter
  (after a dot for functions), the counter being stepped until the result is free.
  Names are taken to be non-empty, as every name the parser produces is.
\<close>

fun utostr :: "nat \<Rightarrow> string" where
  "utostr n = (if n < 10 then [char_of (48 + n)] else utostr (n div 10) @ [char_of (48 + n mod 10)])"

declare utostr.simps [simp del]

lemma decimal_snoc: "decimal (ds @ [c]) = 10 * decimal ds + (of_char c - 48)"
  by (simp add: decimal_def)

lemma decimal_utostr: "decimal (utostr n) = n"
proof (induction n rule: utostr.induct)
  case (1 n)
  show ?case
  proof (cases "n < 10")
    case True
    then show ?thesis by (subst utostr.simps) (simp add: decimal_def)
  next
    case False
    have "of_char (char_of (48 + n mod 10) :: char) = 48 + n mod 10"
      by (simp add: of_char_of) 
    with 1 False show ?thesis
      by (subst utostr.simps) (simp add: decimal_snoc)
  qed
qed

lemma inj_utostr: "inj utostr"
  by (rule inj_on_inverseI [where g = decimal]) (rule decimal_utostr)

definition unique_candidate :: "string \<Rightarrow> bool \<Rightarrow> nat \<Rightarrow> string" where
  "unique_candidate base dot k = base @ (if dot then ''.'' else []) @ utostr k"

lemma inj_unique_candidate: "inj (unique_candidate base dot)"
  by (rule injI) (simp add: unique_candidate_def inj_utostr [THEN injD])

function makeUniqueName :: "string \<Rightarrow> bool \<Rightarrow> string list \<Rightarrow> nat \<Rightarrow> string \<times> nat" where
  "makeUniqueName base dot taken counter =
     (let counter' = Suc counter;
          UniqueName = unique_candidate base dot counter'
      in if UniqueName \<in> set taken then makeUniqueName base dot taken counter'
         else (UniqueName, counter'))"
  by pat_completeness auto
termination
proof (relation "measure (\<lambda>(base, dot, taken, counter).
         card {k. counter < k \<and> unique_candidate base dot k \<in> set taken})")
  show "wf (measure (\<lambda>(base, dot, taken, counter).
         card {k. counter < k \<and> unique_candidate base dot k \<in> set taken}))" by simp
next
  fix base :: string and dot :: bool and taken :: "string list" and counter counter' :: nat
    and UniqueName :: string
  assume l: "counter' = Suc counter" and u: "UniqueName = unique_candidate base dot counter'"
    and mem: "UniqueName \<in> set taken"
  let ?A = "\<lambda>l. {k. l < k \<and> unique_candidate base dot k \<in> set taken}"
  have fin: "finite (?A counter)"
  proof -
    have "finite (unique_candidate base dot -` set taken)"
      by (rule finite_vimageI [OF _ inj_unique_candidate]) simp
    moreover have "?A counter \<subseteq> unique_candidate base dot -` set taken" by auto
    ultimately show ?thesis by (rule rev_finite_subset)
  qed
  have "?A counter' \<subset> ?A counter"
    using l u mem by auto
  with fin have "card (?A counter') < card (?A counter)" by (rule psubset_card_mono)
  then show "((base, dot, taken, counter'), (base, dot, taken, counter)) \<in> measure (\<lambda>(base, dot, taken, counter).
         card {k. counter < k \<and> unique_candidate base dot k \<in> set taken})" by simp
qed

declare makeUniqueName.simps [simp del]

text \<open>\<open>Module::getFunction\<close>: the handle registered under the name, if any.\<close>

definition getFunction :: "Module \<Rightarrow> string \<Rightarrow> string option" where
  "getFunction M name = (if name \<in> fst ` set (FunctionList M) then Some name else None)"

definition arg_size :: "Module \<Rightarrow> string \<Rightarrow> nat" where
  "arg_size M F = (case map_of (FunctionList M) F of Some f \<Rightarrow> length (arg_names f) | None \<Rightarrow> 0)"

definition function_args :: "Module \<Rightarrow> string \<Rightarrow> string list" where
  "function_args M F = (case map_of (FunctionList M) F of Some f \<Rightarrow> arg_names f | None \<Rightarrow> [])"

definition update_function :: "string \<Rightarrow> (Function \<Rightarrow> Function) \<Rightarrow> Module \<Rightarrow> Module" where
  "update_function F g M =
     M\<lparr>FunctionList := map (\<lambda>(n, f). if n = F then (n, g f) else (n, f)) (FunctionList M)\<rparr>"

text \<open>
  \<open>Function::Create(FT, ExternalLinkage, Name, TheModule)\<close> with a type of \<open>n\<close>
  parameters: a new function with \<open>n\<close> unnamed arguments and no block is appended to
  the module, whether or not the name is taken.
\<close>

definition Function_Create :: "string \<Rightarrow> nat \<Rightarrow> Module \<Rightarrow> string \<times> Module" where
  "Function_Create name n M =
     (let taken = map fst (FunctionList M);
          (name', counter') =
             (if name \<in> set taken then makeUniqueName name True taken (LastUnique M)
              else (name, LastUnique M))
      in (name', M\<lparr>FunctionList := FunctionList M @ [(name', \<lparr>arg_names = replicate n [], blocks = []\<rparr>)],
                   LastUnique := counter'\<rparr>))"

text \<open>
  \<open>for (auto &Arg : F->args()) Arg.setName(Args[Idx++]);\<close> on a function just created:
  \<open>named\<close> are the argument names set so far.
\<close>

fun setArgNames :: "string list \<Rightarrow> string list \<Rightarrow> nat \<Rightarrow> string list" where
  "setArgNames [] named counter = named"
| "setArgNames (a # as) named counter =
     (if a \<in> set named
      then (case makeUniqueName a False named counter of
              (a', counter') \<Rightarrow> setArgNames as (named @ [a']) counter')
      else setArgNames as (named @ [a]) counter)"

definition eraseFromParent :: "string \<Rightarrow> Module \<Rightarrow> Module" where
  "eraseFromParent F M = M\<lparr>FunctionList := filter (\<lambda>(n, f). n \<noteq> F) (FunctionList M)\<rparr>"

text \<open>
  \<open>BasicBlock::Create(*TheContext, "entry", TheFunction)\<close> appends an empty block to the
  function; the block is referred to by its position.
\<close>

definition BasicBlock_Create :: "string \<Rightarrow> Module \<Rightarrow> nat \<times> Module" where
  "BasicBlock_Create F M =
     (case map_of (FunctionList M) F of
        None \<Rightarrow> (0, M)
      | Some f \<Rightarrow> (length (blocks f), update_function F (\<lambda>f. f\<lparr>blocks := blocks f @ [[]]\<rparr>) M))"

text \<open>The builder appends each instruction it creates to the block at its insertion point.\<close>

definition emit :: "Value \<Rightarrow> state \<Rightarrow> state" where
  "emit v s =
     (case InsertPoint s of
        None \<Rightarrow> s
      | Some (F, b) \<Rightarrow>
          s\<lparr>TheModule := update_function F
               (\<lambda>f. if b < length (blocks f)
                    then f\<lparr>blocks := (blocks f)[b := blocks f ! b @ [v]]\<rparr> else f)
               (TheModule s)\<rparr>)"

definition Create :: "Value \<Rightarrow> state \<Rightarrow> Value \<times> state" where
  "Create v s = (v, emit v s)"

text \<open>
  The methods of \<open>IRBuilder<>\<close> that \<open>BinaryExprAST::codegen\<close> calls. The builder (with
  its default folder) folds an operation whose operands are all constants: it returns
  the resulting constant and inserts nothing; otherwise it creates the instruction and
  inserts it. The folded constant is computed on the real numbers that the doubles
  denote (rounding, overflow and NaN are not modelled); \<open>ULT\<close> on two such numbers is
  \<open><\<close>, and \<open>uitofp\<close> of a one-bit constant is 1 or 0.
\<close>

fun CreateFAdd :: "Value \<Rightarrow> Value \<Rightarrow> state \<Rightarrow> Value \<times> state" where
  "CreateFAdd (ConstantFP a) (ConstantFP b) s = (ConstantFP (a + b), s)"
| "CreateFAdd L R s = Create (FAdd L R) s"

fun CreateFSub :: "Value \<Rightarrow> Value \<Rightarrow> state \<Rightarrow> Value \<times> state" where
  "CreateFSub (ConstantFP a) (ConstantFP b) s = (ConstantFP (a - b), s)"
| "CreateFSub L R s = Create (FSub L R) s"

fun CreateFMul :: "Value \<Rightarrow> Value \<Rightarrow> state \<Rightarrow> Value \<times> state" where
  "CreateFMul (ConstantFP a) (ConstantFP b) s = (ConstantFP (a * b), s)"
| "CreateFMul L R s = Create (FMul L R) s"

fun CreateFCmpULT :: "Value \<Rightarrow> Value \<Rightarrow> state \<Rightarrow> Value \<times> state" where
  "CreateFCmpULT (ConstantFP a) (ConstantFP b) s = (ConstantInt (a < b), s)"
| "CreateFCmpULT L R s = Create (FCmpULT L R) s"

fun CreateUIToFP :: "Value \<Rightarrow> state \<Rightarrow> Value \<times> state" where
  "CreateUIToFP (ConstantInt b) s = (ConstantFP (if b then 1 else 0), s)"
| "CreateUIToFP V s = Create (UIToFP V) s"

section \<open>Lowering\<close>

text \<open>
  \<open>NamedValues[Name]\<close>: \<open>std::map::operator[]\<close> inserts a null entry for a missing key.
\<close>

definition NamedValues_index :: "string \<Rightarrow> state \<Rightarrow> Value option \<times> state" where
  "NamedValues_index n s =
     (case map_of (NamedValues s) n of
        Some V \<Rightarrow> (V, s)
      | None \<Rightarrow> (None, s\<lparr>NamedValues := NamedValues s @ [(n, None)]\<rparr>))"

text \<open>\<open>NamedValues[Name] = V\<close>.\<close>

definition NamedValues_assign :: "string \<Rightarrow> Value \<Rightarrow> (string \<times> Value option) list \<Rightarrow> (string \<times> Value option) list" where
  "NamedValues_assign n V nv =
     (if n \<in> fst ` set nv then map (\<lambda>(k, v). if k = n then (k, Some V) else (k, v)) nv
      else nv @ [(n, Some V)])"

text \<open>The \<open>switch (Op)\<close> of \<open>BinaryExprAST::codegen\<close>, reached with both operands non-null.\<close>

definition binop :: "char \<Rightarrow> Value \<Rightarrow> Value \<Rightarrow> state \<Rightarrow> Value option \<times> state" where
  "binop Op L R s =
     (if Op = CHR ''+'' then apfst Some (CreateFAdd L R s)
      else if Op = CHR ''-'' then apfst Some (CreateFSub L R s)
      else if Op = CHR ''*'' then apfst Some (CreateFMul L R s)
      else if Op = CHR ''<'' then
        (case CreateFCmpULT L R s of
           (L', s1) \<Rightarrow> apfst Some (CreateUIToFP L' s1))
      else (None, LogError ''invalid binary operator!'' s))"

text \<open>
  The \<open>codegen\<close> methods of the expression nodes. The outer \<open>None\<close> is a call through a
  null \<open>unique_ptr\<close> (the program has no defined behaviour from there on); the inner
  option is the returned \<open>Value *\<close>.
\<close>

fun codegen :: "ExprAST \<Rightarrow> state \<Rightarrow> (Value option \<times> state) option"
  and codegen_ptr :: "ExprAST option \<Rightarrow> state \<Rightarrow> (Value option \<times> state) option"
  and codegen_args :: "ExprAST list \<Rightarrow> Value list \<Rightarrow> state \<Rightarrow> (Value list option \<times> state) option"
where
  "codegen (NumberExprAST x) s = Some (Some (ConstantFP x), s)"
| "codegen (VariableExprAST n) s =
     (case NamedValues_index n s of
        (None, s1) \<Rightarrow> Some (None, LogError ''Unkown variable name!'' s1)
      | (Some V, s1) \<Rightarrow> Some (Some V, s1))"
| "codegen (BinaryExprAST Op LHS RHS) s =
     (case codegen_ptr LHS s of
        None \<Rightarrow> None
      | Some (L, s1) \<Rightarrow>
          (case codegen_ptr RHS s1 of
             None \<Rightarrow> None
           | Some (R, s2) \<Rightarrow>
               (case (L, R) of
                  (Some l, Some r) \<Rightarrow> Some (binop Op l r s2)
                | _ \<Rightarrow> Some (None, s2))))"
| "codegen (CallExprAST Callee args) s =
     (case getFunction (TheModule s) Callee of
        None \<Rightarrow> Some (None, LogError ''Unkown function referenced!'' s)
      | Some CalleeF \<Rightarrow>
          if arg_size (TheModule s) CalleeF \<noteq> length args
          then Some (None, LogError ''Incorrect argument number!'' s)
          else (case codegen_args args [] s of
                  None \<Rightarrow> None
                | Some (None, s1) \<Rightarrow> Some (None, s1)
                | Some (Some ArgsV, s1) \<Rightarrow> Some (apfst Some (Create (Call CalleeF ArgsV) s1))))"
| "codegen_ptr None s = None"
| "codegen_ptr (Some e) s = codegen e s"
| "codegen_args [] ArgsV s = Some (Some ArgsV, s)"
| "codegen_args (i # rest) ArgsV s =
     (case codegen i s of
        None \<Rightarrow> None
      | Some (None, s1) \<Rightarrow> Some (None, s1)
      | Some (Some V, s1) \<Rightarrow> codegen_args rest (ArgsV @ [V]) s1)"

definition PrototypeAST_codegen :: "PrototypeAST \<Rightarrow> state \<Rightarrow> string option \<times> state" where
  "PrototypeAST_codegen P s =
     (case Function_Create (Name P) (length (Args P)) (TheModule s) of
        (F, M) \<Rightarrow>
          (Some F, s\<lparr>TheModule := update_function F
                        (\<lambda>f. f\<lparr>arg_names := setArgNames (Args P) [] 0\<rparr>) M\<rparr>))"

text \<open>
  \<open>FunctionAST::codegen\<close>: the handle is looked up by name and created only if there
  is none; \<open>enter_function\<close> is the part between that and the lowering of the body
  (the entry block, the insertion point, and the scope filled from the arguments of the
  handle). \<open>verifyFunction\<close> only reports, and its result is dropped.
\<close>

definition scope_of :: "string \<Rightarrow> string list \<Rightarrow> (string \<times> Value option) list" where
  "scope_of F names =
     foldl (\<lambda>nv (i, n). NamedValues_assign n (Argument F i) nv) [] (enumerate 0 names)"

definition enter_function :: "string \<Rightarrow> state \<Rightarrow> state" where
  "enter_function F s =
     (case BasicBlock_Create F (TheModule s) of
        (BB, M) \<Rightarrow>
          s\<lparr>TheModule := M, InsertPoint := Some (F, BB),
            NamedValues := scope_of F (function_args M F)\<rparr>)"

definition FunctionAST_codegen :: "FunctionAST \<Rightarrow> state \<Rightarrow> (string option \<times> state) option" where
  "FunctionAST_codegen Fn s =
     (case (case getFunction (TheModule s) (Name (Proto Fn)) of
              Some F \<Rightarrow> (Some F, s)
            | None \<Rightarrow> PrototypeAST_codegen (Proto Fn) s) of
        (None, s1) \<Rightarrow> Some (None, s1)
      | (Some TheFunction, s1) \<Rightarrow>
          (case codegen (Body Fn) (enter_function TheFunction s1) of
             None \<Rightarrow> None
           | Some (Some RetVal, s2) \<Rightarrow> Some (Some TheFunction, emit (Ret RetVal) s2)
           | Some (None, s2) \<Rightarrow>
               Some (None, s2\<lparr>TheModule := eraseFromParent TheFunction (TheModule s2)\<rparr>)))"

text \<open>
  \<open>HandleExtern\<close>: stdout receives the two lines printed with \<open>fmt::print\<close> and
  \<open>printf\<close>; the dump of the function goes to stderr.
\<close>

definition HandleExtern :: "state \<Rightarrow> state" where
  "HandleExtern s =
     (case ParseExtern s of
        (Some ProtoAST, s1) \<Rightarrow>
          (case PrototypeAST_codegen ProtoAST s1 of
             (Some FnIR, s2) \<Rightarrow> s2\<lparr>out := out s2 @ [''Parsed an extern'', []]\<rparr>
           | (None, s2) \<Rightarrow> s2)
      | (None, s1) \<Rightarrow> getNextTok s1)"

definition HandleTopLevelExpression :: "nat \<Rightarrow> state \<Rightarrow> state option" where
  "HandleTopLevelExpression n s =
     (case ParseTopLevelExpr n s of
        None \<Rightarrow> None
      | Some (Some FnAST, s1) \<Rightarrow>
          (case FunctionAST_codegen FnAST s1 of
             None \<Rightarrow> None
           | Some (Some FnIR, s2) \<Rightarrow> Some (s2\<lparr>out := out s2 @ [''Parsed a top-level expr'', []]\<rparr>)
           | Some (None, s2) \<Rightarrow> Some s2)
      | Some (None, s1) \<Rightarrow> Some (getNextTok s1))"

definition HandleDefinition :: "nat \<Rightarrow> state \<Rightarrow> state option" where
  "HandleDefinition n s =
     (case ParseDefinition n s of
        None \<Rightarrow> None
      | Some (Some FnAST, s1) \<Rightarrow>
          (case FunctionAST_codegen FnAST s1 of
             None \<Rightarrow> None
           | Some (Some FnIR, s2) \<Rightarrow> Some (s2\<lparr>out := out s2 @ [''Parsed a function definition.'', []]\<rparr>)
           | Some (None, s2) \<Rightarrow> Some s2)
      | Some (None, s1) \<Rightarrow> Some (getNextTok s1))"

section \<open>Notions used to state the properties\<close>

text \<open>
  What is left to read, counting the lookahead and the current token: \<open>pending\<close> above
  counts the characters, \<open>unparsed\<close> adds the current token unless it is \<open>tok_eof\<close>.
\<close>

definition unparsed :: "state \<Rightarrow> nat" where
  "unparsed s = pending s + (if CurTok s = tok_eof then 0 else 1)"

text \<open>
  A function with a depth bound returns \<open>r\<close> if some bound is enough for it; it halts
  within \<open>b\<close> if it returns in a state with at most \<open>b\<close> left to read.
\<close>

definition returns :: "(nat \<Rightarrow> 'a option) \<Rightarrow> 'a \<Rightarrow> bool" where
  "returns f r \<longleftrightarrow> (\<exists>n. f n = Some r)"

definition halts :: "(nat \<Rightarrow> ('a \<times> state) option) \<Rightarrow> nat \<Rightarrow> bool" where
  "halts f b \<longleftrightarrow> (\<exists>r s'. returns f (r, s') \<and> unparsed s' \<le> b)"

text \<open>
  The names under which the module holds its functions. Lowering an expression never
  adds or removes a function.
\<close>

definition function_names :: "state \<Rightarrow> string list" where
  "function_names s = map fst (FunctionList (TheModule s))"

text \<open>
  A state for examples: the module declares \<open>foo\<close> with the parameters \<open>a\<close> and \<open>b\<close>, and
  the scope binds \<open>x\<close> to the first argument of a function \<open>f\<close>.
\<close>

definition lowering_example :: state where
  "lowering_example =
     (initial [])\<lparr>TheModule := \<lparr>FunctionList = [(''foo'', \<lparr>arg_names = [''a'', ''b''], blocks = []\<rparr>)],
                                  LastUnique = 0\<rparr>,
                    NamedValues := [(''x'', Some (Argument ''f'' 0))]\<rparr>"

section \<open>Properties of the lexer\<close>

lemma skip_spaces_EOF: "LastChar s = EOF \<Longrightarrow> skip_spaces s = s"
  by (subst skip_spaces.simps) (simp add: isspace_def)

lemma gettok_at_EOF: "LastChar s = EOF \<Longrightarrow> gettok s = (tok_eof, s)"
  by (subst gettok_unfold) (simp add: skip_spaces_EOF Let_def isalpha_def eof_or_char_def)

lemma gettok_eof_LastChar: "fst (gettok s) = tok_eof \<Longrightarrow> LastChar (snd (gettok s)) = EOF"
proof (induction s rule: gettok.induct)
  case (1 s)
  note IH = 1(1) and tok = 1(2)
  let ?s1 = "skip_spaces s"
  show ?case
  proof (cases "isalpha (LastChar ?s1)")
    case True
    with tok show ?thesis by (subst (asm) gettok_unfold) (simp add: Let_def split: if_splits)
  next
    case nalpha: False
    show ?thesis
    proof (cases "LastChar ?s1 = 35")
      case True
      let ?s2 = "comment_loop ?s1"
      show ?thesis
      proof (cases "LastChar ?s2 \<noteq> EOF")
        case ne: True
        have eq: "gettok s = gettok ?s2"
          using nalpha True ne by (subst gettok_unfold) (simp add: Let_def)
        with tok IH [OF refl nalpha _ True refl ne] show ?thesis by simp
      next
        case False
        with nalpha True have "gettok s = (tok_eof, ?s2)"
          by (subst gettok_unfold) (simp add: Let_def)
        with False show ?thesis by simp
      qed
    next
      case False
      with nalpha have eq: "gettok s = eof_or_char ?s1"
        by (subst gettok_unfold) (simp add: Let_def)
      with tok show ?thesis by (auto simp: eof_or_char_def split: if_splits)
    qed
  qed
qed

lemma funpow_gettok_EOF:
  "LastChar s = EOF \<Longrightarrow> ((\<lambda>s. snd (gettok s)) ^^ n) s = s"
  by (induction n) (simp_all add: gettok_at_EOF)

lemma of_char_nonneg: "0 \<le> (of_char c :: int)"
  by (metis of_nat_of_char of_nat_0_le_iff)

lemma read_LastChar_valid: "- 1 \<le> LastChar (read_LastChar s)"
  using of_char_nonneg by (auto simp add: read_LastChar_def getchar_def split: list.splits intro: order_trans [of "-1" 0])

lemma comment_loop_valid: "- 1 \<le> LastChar (comment_loop s)"
proof (induction s rule: comment_loop.induct)
  case (1 s)
  then show ?case
    by (subst comment_loop.simps) (simp add: Let_def read_LastChar_valid)
qed

lemma skip_spaces_valid: "- 1 \<le> LastChar s \<Longrightarrow> - 1 \<le> LastChar (skip_spaces s)"
proof (induction s rule: skip_spaces.induct)
  case (1 s)
  then show ?case
    by (subst skip_spaces.simps) (simp add: read_LastChar_valid)
qed

lemma gettok_never_tok_number: "- 1 \<le> LastChar s \<Longrightarrow> fst (gettok s) \<noteq> tok_number"
proof (induction s rule: gettok.induct)
  case (1 s)
  note IH = 1(1) and v = 1(2)
  let ?s1 = "skip_spaces s"
  have v1: "- 1 \<le> LastChar ?s1" using v by (rule skip_spaces_valid)
  show ?case
  proof (cases "isalpha (LastChar ?s1)")
    case True
    then show ?thesis by (subst gettok_unfold) (simp add: Let_def)
  next
    case nalpha: False
    show ?thesis
    proof (cases "LastChar ?s1 = 35")
      case True
      let ?s2 = "comment_loop ?s1"
      have v2: "- 1 \<le> LastChar ?s2" by (rule comment_loop_valid)
      show ?thesis
      proof (cases "LastChar ?s2 \<noteq> EOF")
        case ne: True
        have eq: "gettok s = gettok ?s2"
          using nalpha True ne by (subst gettok_unfold) (simp add: Let_def)
        with IH [OF refl nalpha _ True refl ne v2] show ?thesis by simp
      next
        case False
        with nalpha True have "gettok s = (tok_eof, ?s2)"
          by (subst gettok_unfold) (simp add: Let_def)
        then show ?thesis by simp
      qed
    next
      case False
      with nalpha have eq: "gettok s = eof_or_char ?s1"
        by (subst gettok_unfold) (simp add: Let_def)
      with v1 show ?thesis by (auto simp: eof_or_char_def split: if_splits)
    qed
  qed
qed

section \<open>Properties of the parser\<close>

text \<open>More fuel never changes a result that was reached.\<close>

lemma ParsePrimary_fuel_step:
  assumes I: "\<And>s. ParseIdentifierExpr n s \<noteq> None \<Longrightarrow> ParseIdentifierExpr (Suc n) s = ParseIdentifierExpr n s"
    and Pa: "\<And>s. ParseParenExpr n s \<noteq> None \<Longrightarrow> ParseParenExpr (Suc n) s = ParseParenExpr n s"
    and that: "ParsePrimary (Suc n) s \<noteq> None"
  shows "ParsePrimary (Suc (Suc n)) s = ParsePrimary (Suc n) s"
    using that
    by (subst ParsePrimary.simps(2), subst (asm) ParsePrimary.simps(2), subst ParsePrimary.simps(2))
       (auto simp: I Pa split: if_splits)

lemma ParseIdentifierExpr_fuel_step:
  assumes A: "\<And>a s. ParseArgs n a s \<noteq> None \<Longrightarrow> ParseArgs (Suc n) a s = ParseArgs n a s"
    and that: "ParseIdentifierExpr (Suc n) s \<noteq> None"
  shows "ParseIdentifierExpr (Suc (Suc n)) s = ParseIdentifierExpr (Suc n) s"
proof (cases "ParseArgs n [] (getNextTok (getNextTok s))")
  case None
  with that show ?thesis
    by (simp add: ParseIdentifierExpr.simps(2) [of _ s] Let_def split: if_splits)
next
  case (Some r)
  then have "ParseArgs (Suc n) [] (getNextTok (getNextTok s)) = Some r"
    using A [of "[]" "getNextTok (getNextTok s)"] by simp
  with Some show ?thesis
    by (simp add: ParseIdentifierExpr.simps(2) [of _ s] Let_def)
qed

lemma ParseParenExpr_fuel_step:
  assumes E: "\<And>s. ParseExpression n s \<noteq> None \<Longrightarrow> ParseExpression (Suc n) s = ParseExpression n s"
    and that: "ParseParenExpr (Suc n) s \<noteq> None"
  shows "ParseParenExpr (Suc (Suc n)) s = ParseParenExpr (Suc n) s"
proof (cases "ParseExpression n (getNextTok s)")
  case None
  with that show ?thesis
    by (simp add: ParseParenExpr.simps(2) [of _ s] Let_def)
next
  case (Some r)
  then have "ParseExpression (Suc n) (getNextTok s) = Some r"
    using E [of "getNextTok s"] by simp
  with Some show ?thesis
    by (simp add: ParseParenExpr.simps(2) [of _ s] Let_def)
qed

lemma ParseArgs_fuel_step:
  assumes A: "\<And>a s. ParseArgs n a s \<noteq> None \<Longrightarrow> ParseArgs (Suc n) a s = ParseArgs n a s"
    and E: "\<And>s. ParseExpression n s \<noteq> None \<Longrightarrow> ParseExpression (Suc n) s = ParseExpression n s"
    and that: "ParseArgs (Suc n) a s \<noteq> None"
  shows "ParseArgs (Suc (Suc n)) a s = ParseArgs (Suc n) a s"
proof (cases "ParseExpression n s")
  case None
  with that show ?thesis by (simp add: ParseArgs.simps(2) [of _ a s])
next
  case (Some r)
  then have E1: "ParseExpression (Suc n) s = Some r" using E [of s] by simp
  obtain R s1 where r: "r = (R, s1)" by (cases r)
  show ?thesis
  proof (cases R)
    case None
    with Some E1 r show ?thesis by (simp add: ParseArgs.simps(2) [of _ a s])
  next
    case (Some arg)
    note R = this
    show ?thesis
    proof (cases "CurTok s1 = 41 \<or> CurTok s1 \<noteq> 44")
      case True
      with \<open>ParseExpression n s = Some r\<close> E1 r R show ?thesis
        by (auto simp add: ParseArgs.simps(2) [of _ a s] Let_def)
    next
      case False
      with \<open>ParseExpression n s = Some r\<close> r R
      have eq: "ParseArgs (Suc n) a s = ParseArgs n (a @ [arg]) (getNextTok s1)"
        by (simp add: ParseArgs.simps(2) [of n a s] Let_def)
      with that have "ParseArgs n (a @ [arg]) (getNextTok s1) \<noteq> None" by simp
      then have "ParseArgs (Suc n) (a @ [arg]) (getNextTok s1) = ParseArgs n (a @ [arg]) (getNextTok s1)"
        by (rule A)
      moreover from False E1 r R
      have "ParseArgs (Suc (Suc n)) a s = ParseArgs (Suc n) (a @ [arg]) (getNextTok s1)"
        by (simp add: ParseArgs.simps(2) [of "Suc n" a s] Let_def)
      ultimately show ?thesis using eq by simp
    qed
  qed
qed

lemma ParseExpression_fuel_step:
  assumes P: "\<And>s. ParsePrimary n s \<noteq> None \<Longrightarrow> ParsePrimary (Suc n) s = ParsePrimary n s"
    and B: "\<And>p l s. ParseBinOpRHS n p l s \<noteq> None \<Longrightarrow> ParseBinOpRHS (Suc n) p l s = ParseBinOpRHS n p l s"
    and that: "ParseExpression (Suc n) s \<noteq> None"
  shows "ParseExpression (Suc (Suc n)) s = ParseExpression (Suc n) s"
proof (cases "ParsePrimary n s")
  case None
  with that show ?thesis by (simp add: ParseExpression.simps(2) [of _ s])
next
  case (Some r)
  then have P1: "ParsePrimary (Suc n) s = Some r" using P [of s] by simp
  obtain R s1 where r: "r = (R, s1)" by (cases r)
  show ?thesis
  proof (cases R)
    case None
    with Some P1 r show ?thesis by (simp add: ParseExpression.simps(2) [of _ s])
  next
    case (Some LHS)
    with \<open>ParsePrimary n s = Some r\<close> r
    have eq: "ParseExpression (Suc n) s = ParseBinOpRHS n 0 (Some LHS) s1"
      by (simp add: ParseExpression.simps(2) [of n s])
    with that have "ParseBinOpRHS n 0 (Some LHS) s1 \<noteq> None" by simp
    then have "ParseBinOpRHS (Suc n) 0 (Some LHS) s1 = ParseBinOpRHS n 0 (Some LHS) s1" by (rule B)
    moreover from P1 r Some
    have "ParseExpression (Suc (Suc n)) s = ParseBinOpRHS (Suc n) 0 (Some LHS) s1"
      by (simp add: ParseExpression.simps(2) [of "Suc n" s])
    ultimately show ?thesis using eq by simp
  qed
qed

lemma ParseBinOpRHS_fuel_step:
  assumes P: "\<And>s. ParsePrimary n s \<noteq> None \<Longrightarrow> ParsePrimary (Suc n) s = ParsePrimary n s"
    and B: "\<And>p l s. ParseBinOpRHS n p l s \<noteq> None \<Longrightarrow> ParseBinOpRHS (Suc n) p l s = ParseBinOpRHS n p l s"
    and that: "ParseBinOpRHS (Suc n) p l s \<noteq> None"
  shows "ParseBinOpRHS (Suc (Suc n)) p l s = ParseBinOpRHS (Suc n) p l s"
proof (cases "GetTokPrecedence s < p")
  case True
  then show ?thesis by (simp add: ParseBinOpRHS.simps(2) [of _ p l s])
next
  case False
  note nlt = this
  let ?s1 = "getNextTok s"
  show ?thesis
  proof (cases "ParsePrimary n ?s1")
    case None
    with nlt that show ?thesis by (simp add: ParseBinOpRHS.simps(2) [of n p l s] Let_def)
  next
    case (Some r)
    then have P1: "ParsePrimary (Suc n) ?s1 = Some r" using P [of ?s1] by simp
    obtain R s2 where r: "r = (R, s2)" by (cases r)
    show ?thesis
    proof (cases R)
      case None
      with nlt Some P1 r show ?thesis
        by (simp add: ParseBinOpRHS.simps(2) [of _ p l s] Let_def)
    next
      case (Some RHS)
      note R = this
      show ?thesis
      proof (cases "GetTokPrecedence s < GetTokPrecedence s2")
        case True
        show ?thesis
        proof (cases "ParseBinOpRHS n (GetTokPrecedence s + 1) l s2")
          case None
          with nlt \<open>ParsePrimary n ?s1 = Some r\<close> r R True that show ?thesis
            by (simp add: ParseBinOpRHS.simps(2) [of n p l s] Let_def)
        next
          case (Some r')
          then have B1: "ParseBinOpRHS (Suc n) (GetTokPrecedence s + 1) l s2 = Some r'"
            using B [of "GetTokPrecedence s + 1" l s2] by simp
          obtain R' s3 where r': "r' = (R', s3)" by (cases r')
          show ?thesis
          proof (cases R')
            case None
            with nlt \<open>ParsePrimary n ?s1 = Some r\<close> P1 r R True Some B1 r' show ?thesis
              by (simp add: ParseBinOpRHS.simps(2) [of _ p l s] Let_def)
          next
            case (Some RHS')
            let ?L = "Some (BinaryExprAST (char_of (CurTok s)) None (Some RHS'))"
            from nlt \<open>ParsePrimary n ?s1 = Some r\<close> r R True \<open>ParseBinOpRHS n (GetTokPrecedence s + 1) l s2 = Some r'\<close> r' Some
            have eq: "ParseBinOpRHS (Suc n) p l s = ParseBinOpRHS n p ?L s3"
              by (simp add: ParseBinOpRHS.simps(2) [of n p l s] Let_def)
            with that have "ParseBinOpRHS n p ?L s3 \<noteq> None" by simp
            then have "ParseBinOpRHS (Suc n) p ?L s3 = ParseBinOpRHS n p ?L s3" by (rule B)
            moreover from nlt P1 r R True B1 r' Some
            have "ParseBinOpRHS (Suc (Suc n)) p l s = ParseBinOpRHS (Suc n) p ?L s3"
              by (simp add: ParseBinOpRHS.simps(2) [of "Suc n" p l s] Let_def)
            ultimately show ?thesis using eq by simp
          qed
        qed
      next
        case False
        let ?L = "Some (BinaryExprAST (char_of (CurTok s)) l (Some RHS))"
        from nlt \<open>ParsePrimary n ?s1 = Some r\<close> r R False
        have eq: "ParseBinOpRHS (Suc n) p l s = ParseBinOpRHS n p ?L s2"
          by (simp add: ParseBinOpRHS.simps(2) [of n p l s] Let_def)
        with that have "ParseBinOpRHS n p ?L s2 \<noteq> None" by simp
        then have "ParseBinOpRHS (Suc n) p ?L s2 = ParseBinOpRHS n p ?L s2" by (rule B)
        moreover from nlt P1 r R False
        have "ParseBinOpRHS (Suc (Suc n)) p l s = ParseBinOpRHS (Suc n) p ?L s2"
          by (simp add: ParseBinOpRHS.simps(2) [of "Suc n" p l s] Let_def)
        ultimately show ?thesis using eq by simp
      qed
    qed
  qed
qed

lemma fuel_Suc:
  "(\<forall>s. ParsePrimary n s \<noteq> None \<longrightarrow> ParsePrimary (Suc n) s = ParsePrimary n s) \<and>
   (\<forall>s. ParseIdentifierExpr n s \<noteq> None \<longrightarrow> ParseIdentifierExpr (Suc n) s = ParseIdentifierExpr n s) \<and>
   (\<forall>a s. ParseArgs n a s \<noteq> None \<longrightarrow> ParseArgs (Suc n) a s = ParseArgs n a s) \<and>
   (\<forall>s. ParseParenExpr n s \<noteq> None \<longrightarrow> ParseParenExpr (Suc n) s = ParseParenExpr n s) \<and>
   (\<forall>p l s. ParseBinOpRHS n p l s \<noteq> None \<longrightarrow> ParseBinOpRHS (Suc n) p l s = ParseBinOpRHS n p l s) \<and>
   (\<forall>s. ParseExpression n s \<noteq> None \<longrightarrow> ParseExpression (Suc n) s = ParseExpression n s)"
proof (induction n)
  case 0
  show ?case
    by (simp add: ParsePrimary.simps(1) ParseIdentifierExpr.simps(1) ParseArgs.simps(1)
        ParseParenExpr.simps(1) ParseBinOpRHS.simps(1) ParseExpression.simps(1))
next
  case (Suc n)
  then have P: "\<And>s. ParsePrimary n s \<noteq> None \<Longrightarrow> ParsePrimary (Suc n) s = ParsePrimary n s"
    and I: "\<And>s. ParseIdentifierExpr n s \<noteq> None \<Longrightarrow> ParseIdentifierExpr (Suc n) s = ParseIdentifierExpr n s"
    and A: "\<And>a s. ParseArgs n a s \<noteq> None \<Longrightarrow> ParseArgs (Suc n) a s = ParseArgs n a s"
    and Pa: "\<And>s. ParseParenExpr n s \<noteq> None \<Longrightarrow> ParseParenExpr (Suc n) s = ParseParenExpr n s"
    and B: "\<And>p l s. ParseBinOpRHS n p l s \<noteq> None \<Longrightarrow> ParseBinOpRHS (Suc n) p l s = ParseBinOpRHS n p l s"
    and E: "\<And>s. ParseExpression n s \<noteq> None \<Longrightarrow> ParseExpression (Suc n) s = ParseExpression n s"
    by blast+
  show ?case
  proof (intro conjI allI impI)
    fix s assume "ParsePrimary (Suc n) s \<noteq> None"
    then show "ParsePrimary (Suc (Suc n)) s = ParsePrimary (Suc n) s"
      using I Pa by (rule ParsePrimary_fuel_step [rotated 2])
  next
    fix s assume "ParseIdentifierExpr (Suc n) s \<noteq> None"
    then show "ParseIdentifierExpr (Suc (Suc n)) s = ParseIdentifierExpr (Suc n) s"
      using A by (rule ParseIdentifierExpr_fuel_step [rotated 1])
  next
    fix a s assume "ParseArgs (Suc n) a s \<noteq> None"
    then show "ParseArgs (Suc (Suc n)) a s = ParseArgs (Suc n) a s"
      using A E by (rule ParseArgs_fuel_step [rotated 2])
  next
    fix s assume "ParseParenExpr (Suc n) s \<noteq> None"
    then show "ParseParenExpr (Suc (Suc n)) s = ParseParenExpr (Suc n) s"
      using E by (rule ParseParenExpr_fuel_step [rotated 1])
  next
    fix p l s assume "ParseBinOpRHS (Suc n) p l s \<noteq> None"
    then show "ParseBinOpRHS (Suc (Suc n)) p l s = ParseBinOpRHS (Suc n) p l s"
      using P B by (rule ParseBinOpRHS_fuel_step [rotated 2])
  next
    fix s assume "ParseExpression (Suc n) s \<noteq> None"
    then show "ParseExpression (Suc (Suc n)) s = ParseExpression (Suc n) s"
      using P B by (rule ParseExpression_fuel_step [rotated 2])
  qed
qed

lemma ParseExpression_fuel:
  "ParseExpression n s = Some r \<Longrightarrow> ParseExpression (n + k) s = Some r"
  by (induction k) (simp_all add: fuel_Suc)

lemma ParsePrimary_tokens:
  "ParsePrimary (Suc n) s =
     (if CurTok s = tok_number then Some (ParseNumberExpr s)
      else if CurTok s = tok_identifier then ParseIdentifierExpr n s
      else if CurTok s = 40 then ParseParenExpr n s
      else Some (Some (NumberExprAST (NumVal s)),
                 getNextTok (LogError ''Unkown token while parsing!'' s)))"
  by (simp add: ParsePrimary.simps ParseNumberExpr_def LogError_def)

subsection \<open>The parser returns on every input\<close>

lemma gettok_pending_le: "pending (snd (gettok s)) \<le> pending s"
proof (induction s rule: gettok.induct)
  case (1 s)
  note IH = 1
  let ?s1 = "skip_spaces s"
  have le: "pending ?s1 \<le> pending s" by (rule skip_spaces_pending)
  show ?case
  proof (cases "fst (gettok s) = tok_eof")
    case False
    then show ?thesis using gettok_consumes [of s] by simp
  next
    case True
    show ?thesis
    proof (cases "isalpha (LastChar ?s1)")
      case True
      with \<open>fst (gettok s) = tok_eof\<close> show ?thesis
        by (subst (asm) gettok_unfold) (simp add: Let_def split: if_splits)
    next
      case nalpha: False
      show ?thesis
      proof (cases "LastChar ?s1 = 35")
        case True
        let ?s2 = "comment_loop ?s1"
        show ?thesis
        proof (cases "LastChar ?s2 \<noteq> EOF")
          case ne: True
          have eq: "gettok s = gettok ?s2"
            using nalpha True ne by (subst gettok_unfold) (simp add: Let_def)
          with IH [OF refl nalpha _ True refl ne] comment_loop_pending [of ?s1] le
          show ?thesis by simp
        next
          case False
          with nalpha True have "gettok s = (tok_eof, ?s2)"
            by (subst gettok_unfold) (simp add: Let_def)
          with comment_loop_pending [of ?s1] le show ?thesis by simp
        qed
      next
        case False
        with nalpha have eq: "gettok s = eof_or_char ?s1"
          by (subst gettok_unfold) (simp add: Let_def)
        with read_LastChar_pending_le [of ?s1] le show ?thesis
          by (auto simp: eof_or_char_def split: if_splits)
      qed
    qed
  qed
qed

lemma unparsed_getNextTok: "unparsed (getNextTok s) \<le> pending s"
proof -
  obtain t s' where g: "gettok s = (t, s')" by (cases "gettok s")
  then have u: "unparsed (getNextTok s) = pending s' + (if t = tok_eof then 0 else 1)"
    by (simp add: getNextTok_def unparsed_def pending_def)
  show ?thesis
  proof (cases "t = tok_eof")
    case True
    with u g gettok_pending_le [of s] show ?thesis by simp
  next
    case False
    with u g gettok_consumes [of s] show ?thesis by simp
  qed
qed

lemma pending_le_unparsed: "pending s \<le> unparsed s"
  by (simp add: unparsed_def)

lemma pending_less_unparsed: "CurTok s \<noteq> tok_eof \<Longrightarrow> pending s < unparsed s"
  by (simp add: unparsed_def)

lemma pending_LogError [simp]: "pending (LogError e s) = pending s"
  by (simp add: LogError_def pending_def)

lemma unparsed_LogError [simp]: "unparsed (LogError e s) = unparsed s"
  by (simp add: LogError_def unparsed_def pending_def)

lemma fuel_mono:
  assumes "n \<le> m"
  shows "ParsePrimary n s = Some r \<Longrightarrow> ParsePrimary m s = Some r"
    and "ParseIdentifierExpr n s = Some r \<Longrightarrow> ParseIdentifierExpr m s = Some r"
    and "ParseArgs n a s = Some ra \<Longrightarrow> ParseArgs m a s = Some ra"
    and "ParseParenExpr n s = Some r \<Longrightarrow> ParseParenExpr m s = Some r"
    and "ParseBinOpRHS n p l s = Some r \<Longrightarrow> ParseBinOpRHS m p l s = Some r"
    and "ParseExpression n s = Some r \<Longrightarrow> ParseExpression m s = Some r"
proof -
  from assms obtain k where m: "m = n + k" by (auto simp: le_iff_add)
  have "(\<forall>s r. ParsePrimary n s = Some r \<longrightarrow> ParsePrimary (n + k) s = Some r) \<and>
        (\<forall>s r. ParseIdentifierExpr n s = Some r \<longrightarrow> ParseIdentifierExpr (n + k) s = Some r) \<and>
        (\<forall>a s r. ParseArgs n a s = Some r \<longrightarrow> ParseArgs (n + k) a s = Some r) \<and>
        (\<forall>s r. ParseParenExpr n s = Some r \<longrightarrow> ParseParenExpr (n + k) s = Some r) \<and>
        (\<forall>p l s r. ParseBinOpRHS n p l s = Some r \<longrightarrow> ParseBinOpRHS (n + k) p l s = Some r) \<and>
        (\<forall>s r. ParseExpression n s = Some r \<longrightarrow> ParseExpression (n + k) s = Some r)"
  proof (induction k)
    case 0
    show ?case by simp
  next
    case (Suc k)
    with fuel_Suc [of "n + k"] show ?case by simp
  qed
  with m show "ParsePrimary n s = Some r \<Longrightarrow> ParsePrimary m s = Some r"
    and "ParseIdentifierExpr n s = Some r \<Longrightarrow> ParseIdentifierExpr m s = Some r"
    and "ParseArgs n a s = Some ra \<Longrightarrow> ParseArgs m a s = Some ra"
    and "ParseParenExpr n s = Some r \<Longrightarrow> ParseParenExpr m s = Some r"
    and "ParseBinOpRHS n p l s = Some r \<Longrightarrow> ParseBinOpRHS m p l s = Some r"
    and "ParseExpression n s = Some r \<Longrightarrow> ParseExpression m s = Some r"
    by blast+
qed

lemma returnsI: "f n = Some r \<Longrightarrow> returns f r"
  by (auto simp: returns_def)

lemma Primary_number:
  "CurTok s = tok_number \<Longrightarrow> returns (\<lambda>n. ParsePrimary n s) (ParseNumberExpr s)"
  by (rule returnsI [of _ "Suc 0"]) (simp add: ParsePrimary.simps(2))

lemma Primary_default:
  "CurTok s \<noteq> tok_number \<Longrightarrow> CurTok s \<noteq> tok_identifier \<Longrightarrow> CurTok s \<noteq> 40 \<Longrightarrow>
   returns (\<lambda>n. ParsePrimary n s) (ParseNumberExpr (LogError ''Unkown token while parsing!'' s))"
  by (rule returnsI [of _ "Suc 0"]) (simp add: ParsePrimary.simps(2))

lemma Primary_identifier:
  "CurTok s = tok_identifier \<Longrightarrow> returns (\<lambda>n. ParseIdentifierExpr n s) r \<Longrightarrow>
   returns (\<lambda>n. ParsePrimary n s) r"
  unfolding returns_def
proof -
  assume c: "CurTok s = tok_identifier" and "\<exists>n. ParseIdentifierExpr n s = Some r"
  then obtain n where "ParseIdentifierExpr n s = Some r" by blast
  with c have "ParsePrimary (Suc n) s = Some r" by (simp add: ParsePrimary.simps(2))
  then show "\<exists>n. ParsePrimary n s = Some r" by blast
qed

lemma Primary_paren:
  "CurTok s = 40 \<Longrightarrow> returns (\<lambda>n. ParseParenExpr n s) r \<Longrightarrow>
   returns (\<lambda>n. ParsePrimary n s) r"
  unfolding returns_def
proof -
  assume c: "CurTok s = 40" and "\<exists>n. ParseParenExpr n s = Some r"
  then obtain n where "ParseParenExpr n s = Some r" by blast
  with c have "ParsePrimary (Suc n) s = Some r" by (simp add: ParsePrimary.simps(2))
  then show "\<exists>n. ParsePrimary n s = Some r" by blast
qed

lemma Identifier_variable:
  "CurTok (getNextTok s) \<noteq> 40 \<Longrightarrow>
   returns (\<lambda>n. ParseIdentifierExpr n s) (Some (VariableExprAST (IdentifierStr s)), getNextTok s)"
  by (rule returnsI [of _ "Suc 0"]) (simp add: ParseIdentifierExpr.simps(2) Let_def)

lemma Identifier_no_args:
  "CurTok (getNextTok s) = 40 \<Longrightarrow> CurTok (getNextTok (getNextTok s)) = 41 \<Longrightarrow>
   returns (\<lambda>n. ParseIdentifierExpr n s)
     (Some (CallExprAST (IdentifierStr s) []), getNextTok (getNextTok (getNextTok s)))"
  by (rule returnsI [of _ "Suc 0"]) (simp add: ParseIdentifierExpr.simps(2) Let_def)

lemma Identifier_args:
  assumes "CurTok (getNextTok s) = 40" and "CurTok (getNextTok (getNextTok s)) \<noteq> 41"
    and "returns (\<lambda>n. ParseArgs n [] (getNextTok (getNextTok s))) (as, s3)"
  shows "returns (\<lambda>n. ParseIdentifierExpr n s)
     (case as of None \<Rightarrow> (None, s3)
      | Some args \<Rightarrow> (Some (CallExprAST (IdentifierStr s) args), getNextTok s3))"
proof -
  from assms(3) obtain n where "ParseArgs n [] (getNextTok (getNextTok s)) = Some (as, s3)"
    by (auto simp: returns_def)
  with assms(1,2) show ?thesis
    by (intro returnsI [of _ "Suc n"])
       (simp add: ParseIdentifierExpr.simps(2) Let_def split: option.splits)
qed

lemma Paren_expr:
  assumes "returns (\<lambda>n. ParseExpression n (getNextTok s)) (V, s2)"
  shows "returns (\<lambda>n. ParseParenExpr n s)
     (case V of None \<Rightarrow> (None, s2)
      | Some v \<Rightarrow> if CurTok s2 \<noteq> 41 then (None, LogError (''Expected ')'' @ [CHR 0x27]) s2)
                  else (Some v, getNextTok s2))"
proof -
  from assms obtain n where "ParseExpression n (getNextTok s) = Some (V, s2)"
    by (auto simp: returns_def)
  then show ?thesis
    by (intro returnsI [of _ "Suc n"])
       (simp add: ParseParenExpr.simps(2) Let_def split: option.splits)
qed

lemma Expression_failed:
  assumes "returns (\<lambda>n. ParsePrimary n s) (None, s1)"
  shows "returns (\<lambda>n. ParseExpression n s) (None, s1)"
proof -
  from assms obtain n where "ParsePrimary n s = Some (None, s1)" by (auto simp: returns_def)
  then show ?thesis
    by (intro returnsI [of _ "Suc n"]) (simp add: ParseExpression.simps(2))
qed

lemma Expression_binop:
  assumes "returns (\<lambda>n. ParsePrimary n s) (Some LHS, s1)"
    and "returns (\<lambda>n. ParseBinOpRHS n 0 (Some LHS) s1) r"
  shows "returns (\<lambda>n. ParseExpression n s) r"
proof -
  from assms obtain n1 n2 where 1: "ParsePrimary n1 s = Some (Some LHS, s1)"
    and 2: "ParseBinOpRHS n2 0 (Some LHS) s1 = Some r" by (auto simp: returns_def)
  from fuel_mono(1) [OF max.cobounded1 1, of n2] fuel_mono(5) [OF max.cobounded2 2, of n1]
  show ?thesis
    by (intro returnsI [of _ "Suc (max n1 n2)"]) (simp add: ParseExpression.simps(2))
qed

lemma Args_failed:
  assumes "returns (\<lambda>n. ParseExpression n s) (None, s1)"
  shows "returns (\<lambda>n. ParseArgs n a s) (None, s1)"
proof -
  from assms obtain n where "ParseExpression n s = Some (None, s1)" by (auto simp: returns_def)
  then show ?thesis
    by (intro returnsI [of _ "Suc n"]) (simp add: ParseArgs.simps(2))
qed

lemma Args_last:
  assumes "returns (\<lambda>n. ParseExpression n s) (Some arg, s1)" and "CurTok s1 \<noteq> 44 \<or> CurTok s1 = 41"
  shows "returns (\<lambda>n. ParseArgs n a s)
     (if CurTok s1 = 41 then (Some (a @ [arg]), s1)
      else (None, LogError (''Expected ')' or ',' in the argument list'') s1))"
proof -
  from assms obtain n where "ParseExpression n s = Some (Some arg, s1)" by (auto simp: returns_def)
  with assms(2) show ?thesis
    by (intro returnsI [of _ "Suc n"]) (auto simp add: ParseArgs.simps(2) Let_def)
qed

lemma Args_more:
  assumes "returns (\<lambda>n. ParseExpression n s) (Some arg, s1)" and "CurTok s1 = 44"
    and "returns (\<lambda>n. ParseArgs n (a @ [arg]) (getNextTok s1)) r"
  shows "returns (\<lambda>n. ParseArgs n a s) r"
proof -
  from assms obtain n1 n2 where 1: "ParseExpression n1 s = Some (Some arg, s1)"
    and 2: "ParseArgs n2 (a @ [arg]) (getNextTok s1) = Some r" by (auto simp: returns_def)
  from fuel_mono(6) [OF max.cobounded1 1, of n2] fuel_mono(3) [OF max.cobounded2 2, of n1] assms(2)
  show ?thesis
    by (intro returnsI [of _ "Suc (max n1 n2)"]) (simp add: ParseArgs.simps(2) Let_def)
qed

lemma BinOp_done:
  "GetTokPrecedence s < p \<Longrightarrow> returns (\<lambda>n. ParseBinOpRHS n p l s) (l, s)"
  by (rule returnsI [of _ "Suc 0"]) (simp add: ParseBinOpRHS.simps(2))

lemma BinOp_failed:
  assumes "\<not> GetTokPrecedence s < p"
    and "returns (\<lambda>n. ParsePrimary n (getNextTok s)) (None, s2)"
  shows "returns (\<lambda>n. ParseBinOpRHS n p l s) (None, s2)"
proof -
  from assms obtain n where "ParsePrimary n (getNextTok s) = Some (None, s2)"
    by (auto simp: returns_def)
  with assms(1) show ?thesis
    by (intro returnsI [of _ "Suc n"]) (simp add: ParseBinOpRHS.simps(2) Let_def)
qed

lemma BinOp_loop:
  assumes "\<not> GetTokPrecedence s < p"
    and "returns (\<lambda>n. ParsePrimary n (getNextTok s)) (Some RHS, s2)"
    and "\<not> GetTokPrecedence s < GetTokPrecedence s2"
    and "returns (\<lambda>n. ParseBinOpRHS n p (Some (BinaryExprAST (char_of (CurTok s)) l (Some RHS))) s2) r"
  shows "returns (\<lambda>n. ParseBinOpRHS n p l s) r"
proof -
  from assms obtain n1 n2 where 1: "ParsePrimary n1 (getNextTok s) = Some (Some RHS, s2)"
    and 2: "ParseBinOpRHS n2 p (Some (BinaryExprAST (char_of (CurTok s)) l (Some RHS))) s2 = Some r"
    by (auto simp: returns_def)
  from fuel_mono(1) [OF max.cobounded1 1, of n2] fuel_mono(5) [OF max.cobounded2 2, of n1] assms(1,3)
  show ?thesis
    by (intro returnsI [of _ "Suc (max n1 n2)"]) (simp add: ParseBinOpRHS.simps(2) Let_def)
qed

lemma BinOp_inner_failed:
  assumes "\<not> GetTokPrecedence s < p"
    and "returns (\<lambda>n. ParsePrimary n (getNextTok s)) (Some RHS, s2)"
    and "GetTokPrecedence s < GetTokPrecedence s2"
    and "returns (\<lambda>n. ParseBinOpRHS n (GetTokPrecedence s + 1) l s2) (None, s3)"
  shows "returns (\<lambda>n. ParseBinOpRHS n p l s) (None, s3)"
proof -
  from assms obtain n1 n2 where 1: "ParsePrimary n1 (getNextTok s) = Some (Some RHS, s2)"
    and 2: "ParseBinOpRHS n2 (GetTokPrecedence s + 1) l s2 = Some (None, s3)"
    by (auto simp: returns_def)
  from fuel_mono(1) [OF max.cobounded1 1, of n2] fuel_mono(5) [OF max.cobounded2 2, of n1] assms(1,3)
  show ?thesis
    by (intro returnsI [of _ "Suc (max n1 n2)"]) (simp add: ParseBinOpRHS.simps(2) Let_def)
qed

lemma BinOp_inner:
  assumes "\<not> GetTokPrecedence s < p"
    and "returns (\<lambda>n. ParsePrimary n (getNextTok s)) (Some RHS, s2)"
    and "GetTokPrecedence s < GetTokPrecedence s2"
    and "returns (\<lambda>n. ParseBinOpRHS n (GetTokPrecedence s + 1) l s2) (Some RHS', s3)"
    and "returns (\<lambda>n. ParseBinOpRHS n p (Some (BinaryExprAST (char_of (CurTok s)) None (Some RHS'))) s3) r"
  shows "returns (\<lambda>n. ParseBinOpRHS n p l s) r"
proof -
  from assms obtain n1 n2 n3 where 1: "ParsePrimary n1 (getNextTok s) = Some (Some RHS, s2)"
    and 2: "ParseBinOpRHS n2 (GetTokPrecedence s + 1) l s2 = Some (Some RHS', s3)"
    and 3: "ParseBinOpRHS n3 p (Some (BinaryExprAST (char_of (CurTok s)) None (Some RHS'))) s3 = Some r"
    by (auto simp: returns_def)
  let ?n = "max n1 (max n2 n3)"
  have "n1 \<le> ?n" "n2 \<le> ?n" "n3 \<le> ?n" by simp_all
  from fuel_mono(1) [OF this(1) 1] fuel_mono(5) [OF this(2) 2] fuel_mono(5) [OF this(3) 3] assms(1,3)
  show ?thesis
    by (intro returnsI [of _ "Suc ?n"]) (simp add: ParseBinOpRHS.simps(2) Let_def)
qed

lemma haltsI: "returns f (r, s') \<Longrightarrow> unparsed s' \<le> b \<Longrightarrow> halts f b"
  by (auto simp: halts_def)

lemma haltsI': "returns f x \<Longrightarrow> unparsed (snd x) \<le> b \<Longrightarrow> halts f b"
  by (cases x) (auto simp: halts_def)

lemma operator_not_eof: "\<not> GetTokPrecedence s < p \<Longrightarrow> 0 \<le> p \<Longrightarrow> CurTok s \<noteq> tok_eof"
  by (auto simp: GetTokPrecedence_def isascii_def Let_def split: if_splits)

lemma unparsed_getNextTok_less:
  "CurTok s \<noteq> tok_eof \<Longrightarrow> unparsed (getNextTok s) < unparsed s"
  using unparsed_getNextTok [of s] pending_less_unparsed [of s] by simp

lemma unparsed_getNextTok_le: "unparsed (getNextTok s) \<le> unparsed s"
  using unparsed_getNextTok [of s] pending_le_unparsed [of s] by simp

lemma halts_BinOp_step:
  assumes IHP: "\<And>t. unparsed t < m \<Longrightarrow> halts (\<lambda>n. ParsePrimary n t) (pending t)"
    and IHB: "\<And>t p l. unparsed t < m \<Longrightarrow> 0 \<le> p \<Longrightarrow> halts (\<lambda>n. ParseBinOpRHS n p l t) (unparsed t)"
    and s: "unparsed s \<le> m" and p: "0 \<le> p"
  shows "halts (\<lambda>n. ParseBinOpRHS n p l s) (unparsed s)"
proof (cases "GetTokPrecedence s < p")
  case True
  then show ?thesis by (intro haltsI [OF BinOp_done]) simp_all
next
  case False
  let ?s1 = "getNextTok s"
  from False p have "CurTok s \<noteq> tok_eof" by (rule operator_not_eof)
  then have u1: "unparsed ?s1 < unparsed s" by (rule unparsed_getNextTok_less)
  with s have "unparsed ?s1 < m" by simp
  from IHP [OF this] obtain R s2 where
    r1: "returns (\<lambda>n. ParsePrimary n ?s1) (R, s2)" and u2: "unparsed s2 \<le> pending ?s1"
    by (auto simp: halts_def)
  from u2 pending_le_unparsed [of ?s1] u1 have u2': "unparsed s2 < unparsed s" by simp
  with s have m2: "unparsed s2 < m" by simp
  show ?thesis
  proof (cases R)
    case None
    with False r1 have "returns (\<lambda>n. ParseBinOpRHS n p l s) (None, s2)"
      by (intro BinOp_failed) simp_all
    moreover from u2' have "unparsed s2 \<le> unparsed s" by simp
    ultimately show ?thesis by (rule haltsI)
  next
    case (Some RHS)
    note R = this
    show ?thesis
    proof (cases "GetTokPrecedence s < GetTokPrecedence s2")
      case True
      from False p have "0 \<le> GetTokPrecedence s + 1" by simp
      from IHB [OF m2 this, of l] obtain R' s3 where
        r2: "returns (\<lambda>n. ParseBinOpRHS n (GetTokPrecedence s + 1) l s2) (R', s3)"
        and u3: "unparsed s3 \<le> unparsed s2" by (auto simp: halts_def)
      show ?thesis
      proof (cases R')
        case None
        with False r1 R True r2 have "returns (\<lambda>n. ParseBinOpRHS n p l s) (None, s3)"
          by (intro BinOp_inner_failed [of s p RHS s2]) simp_all
        moreover from u3 u2' have "unparsed s3 \<le> unparsed s" by simp
        ultimately show ?thesis by (rule haltsI)
      next
        case (Some RHS')
        from u3 m2 have "unparsed s3 < m" by simp
        from IHB [OF this p, of "Some (BinaryExprAST (char_of (CurTok s)) None (Some RHS'))"]
        obtain r s4 where
          r3: "returns (\<lambda>n. ParseBinOpRHS n p (Some (BinaryExprAST (char_of (CurTok s)) None (Some RHS'))) s3) (r, s4)"
          and u4: "unparsed s4 \<le> unparsed s3" by (auto simp: halts_def)
        from False r1 R True r2 Some r3 have "returns (\<lambda>n. ParseBinOpRHS n p l s) (r, s4)"
          by (intro BinOp_inner [of s p RHS s2 l RHS' s3]) simp_all
        moreover from u4 u3 u2' have "unparsed s4 \<le> unparsed s" by simp
        ultimately show ?thesis by (rule haltsI)
      qed
    next
      case nlt: False
      from IHB [OF m2 p, of "Some (BinaryExprAST (char_of (CurTok s)) l (Some RHS))"]
      obtain r s4 where
        r3: "returns (\<lambda>n. ParseBinOpRHS n p (Some (BinaryExprAST (char_of (CurTok s)) l (Some RHS))) s2) (r, s4)"
        and u4: "unparsed s4 \<le> unparsed s2" by (auto simp: halts_def)
      from False r1 R nlt r3 have "returns (\<lambda>n. ParseBinOpRHS n p l s) (r, s4)"
        by (intro BinOp_loop [of s p RHS s2]) simp_all
      moreover from u4 u2' have "unparsed s4 \<le> unparsed s" by simp
      ultimately show ?thesis by (rule haltsI)
    qed
  qed
qed

lemma halts_Identifier_step:
  assumes IHA: "\<And>t a. unparsed t < m \<Longrightarrow> halts (\<lambda>n. ParseArgs n a t) (pending t)"
    and s: "unparsed s \<le> m"
  shows "halts (\<lambda>n. ParseIdentifierExpr n s) (pending s)"
proof (cases "CurTok (getNextTok s) \<noteq> 40")
  case True
  then show ?thesis
    by (intro haltsI [OF Identifier_variable]) (simp_all add: unparsed_getNextTok)
next
  case False
  let ?s1 = "getNextTok s" and ?s2 = "getNextTok (getNextTok s)"
  from False have c1: "CurTok ?s1 = 40" by simp
  then have "unparsed ?s2 < unparsed ?s1" by (intro unparsed_getNextTok_less) simp
  with unparsed_getNextTok [of s] have u2: "unparsed ?s2 < pending s" by simp
  show ?thesis
  proof (cases "CurTok ?s2 = 41")
    case True
    have "unparsed (getNextTok ?s2) \<le> pending s"
      using unparsed_getNextTok_le [of ?s2] u2 by simp
    with c1 True show ?thesis by (intro haltsI [OF Identifier_no_args]) simp_all
  next
    case ne: False
    from u2 pending_le_unparsed [of s] s have "unparsed ?s2 < m" by simp
    from IHA [OF this, of "[]"] obtain as s3 where
      r: "returns (\<lambda>n. ParseArgs n [] ?s2) (as, s3)" and u3: "unparsed s3 \<le> pending ?s2"
      by (auto simp: halts_def)
    from u3 pending_le_unparsed [of ?s2] u2 have u3': "unparsed s3 \<le> pending s" by simp
    have "unparsed (getNextTok s3) \<le> pending s"
      using unparsed_getNextTok_le [of s3] u3' by simp
    with u3' show ?thesis
      by (intro haltsI' [OF Identifier_args [OF c1 ne r]]) (simp split: option.splits)
  qed
qed

lemma halts_Paren_step:
  assumes IHE: "\<And>t. unparsed t < m \<Longrightarrow> halts (\<lambda>n. ParseExpression n t) (pending t)"
    and s: "unparsed s \<le> m" and c: "CurTok s \<noteq> tok_eof"
  shows "halts (\<lambda>n. ParseParenExpr n s) (pending s)"
proof -
  let ?s1 = "getNextTok s"
  from c have "unparsed ?s1 < unparsed s" by (rule unparsed_getNextTok_less)
  with s have "unparsed ?s1 < m" by simp
  from IHE [OF this] obtain V s2 where
    r: "returns (\<lambda>n. ParseExpression n ?s1) (V, s2)" and u2: "unparsed s2 \<le> pending ?s1"
    by (auto simp: halts_def)
  from u2 pending_le_unparsed [of ?s1] unparsed_getNextTok [of s]
  have u2': "unparsed s2 \<le> pending s" by simp
  have "unparsed (getNextTok s2) \<le> pending s"
    using unparsed_getNextTok_le [of s2] u2' by simp
  with u2' show ?thesis
    by (intro haltsI' [OF Paren_expr [OF r]]) (simp split: option.splits)
qed

lemma halts_Primary_step:
  assumes I: "halts (\<lambda>n. ParseIdentifierExpr n s) (pending s)"
    and Pa: "CurTok s \<noteq> tok_eof \<Longrightarrow> halts (\<lambda>n. ParseParenExpr n s) (pending s)"
  shows "halts (\<lambda>n. ParsePrimary n s) (pending s)"
proof -
  consider "CurTok s = tok_number" | "CurTok s = tok_identifier" | "CurTok s = 40"
    | "CurTok s \<noteq> tok_number" "CurTok s \<noteq> tok_identifier" "CurTok s \<noteq> 40" by blast
  then show ?thesis
  proof cases
    case 1
    then show ?thesis
      by (intro haltsI' [OF Primary_number]) (simp_all add: ParseNumberExpr_def unparsed_getNextTok)
  next
    case 2
    from I obtain r s' where "returns (\<lambda>n. ParseIdentifierExpr n s) (r, s')" "unparsed s' \<le> pending s"
      by (auto simp: halts_def)
    with 2 show ?thesis by (intro haltsI [OF Primary_identifier, of s r s']) simp_all
  next
    case 3
    then have "CurTok s \<noteq> tok_eof" by simp
    from Pa [OF this] obtain r s' where "returns (\<lambda>n. ParseParenExpr n s) (r, s')" "unparsed s' \<le> pending s"
      by (auto simp: halts_def)
    with 3 show ?thesis by (intro haltsI [OF Primary_paren, of s r s']) simp_all
  next
    case 4
    have "unparsed (getNextTok (LogError ''Unkown token while parsing!'' s)) \<le> pending s"
      using unparsed_getNextTok [of "LogError ''Unkown token while parsing!'' s"] by simp
    with 4 show ?thesis
      by (intro haltsI' [OF Primary_default]) (simp_all add: ParseNumberExpr_def)
  qed
qed

lemma halts_Expression_step:
  assumes P: "halts (\<lambda>n. ParsePrimary n s) (pending s)"
    and B: "\<And>t p l. unparsed t \<le> m \<Longrightarrow> 0 \<le> p \<Longrightarrow> halts (\<lambda>n. ParseBinOpRHS n p l t) (unparsed t)"
    and s: "unparsed s \<le> m"
  shows "halts (\<lambda>n. ParseExpression n s) (pending s)"
proof -
  from P obtain L s1 where r1: "returns (\<lambda>n. ParsePrimary n s) (L, s1)"
    and u1: "unparsed s1 \<le> pending s" by (auto simp: halts_def)
  show ?thesis
  proof (cases L)
    case None
    with r1 have "returns (\<lambda>n. ParseExpression n s) (None, s1)"
      by (intro Expression_failed) simp
    then show ?thesis using u1 by (rule haltsI)
  next
    case (Some LHS)
    from u1 pending_le_unparsed [of s] s have "unparsed s1 \<le> m" by simp
    from B [OF this, of 0 "Some LHS"] obtain r s2 where
      r2: "returns (\<lambda>n. ParseBinOpRHS n 0 (Some LHS) s1) (r, s2)" and u2: "unparsed s2 \<le> unparsed s1"
      by (auto simp: halts_def)
    from r1 Some r2 have "returns (\<lambda>n. ParseExpression n s) (r, s2)"
      by (intro Expression_binop [of s LHS s1]) simp_all
    moreover from u2 u1 have "unparsed s2 \<le> pending s" by simp
    ultimately show ?thesis by (rule haltsI)
  qed
qed

lemma halts_Args_step:
  assumes E: "halts (\<lambda>n. ParseExpression n s) (pending s)"
    and IHA: "\<And>t a. unparsed t < m \<Longrightarrow> halts (\<lambda>n. ParseArgs n a t) (pending t)"
    and s: "unparsed s \<le> m"
  shows "halts (\<lambda>n. ParseArgs n a s) (pending s)"
proof -
  from E obtain R s1 where r1: "returns (\<lambda>n. ParseExpression n s) (R, s1)"
    and u1: "unparsed s1 \<le> pending s" by (auto simp: halts_def)
  show ?thesis
  proof (cases R)
    case None
    with r1 have "returns (\<lambda>n. ParseArgs n a s) (None, s1)"
      by (intro Args_failed) simp
    then show ?thesis using u1 by (rule haltsI)
  next
    case (Some arg)
    show ?thesis
    proof (cases "CurTok s1 = 44")
      case False
      then have "CurTok s1 \<noteq> 44 \<or> CurTok s1 = 41" by simp
      from Args_last [OF _ this, of s arg a] r1 Some u1 show ?thesis
        by (intro haltsI' [of _ "if CurTok s1 = 41 then (Some (a @ [arg]), s1)
              else (None, LogError (''Expected ')' or ',' in the argument list'') s1)"]) simp_all
    next
      case True
      then have "CurTok s1 \<noteq> tok_eof" by simp
      then have "unparsed (getNextTok s1) < unparsed s1" by (rule unparsed_getNextTok_less)
      with u1 pending_le_unparsed [of s] s have "unparsed (getNextTok s1) < m" by simp
      from IHA [OF this, of "a @ [arg]"] obtain r s2 where
        r2: "returns (\<lambda>n. ParseArgs n (a @ [arg]) (getNextTok s1)) (r, s2)"
        and u2: "unparsed s2 \<le> pending (getNextTok s1)" by (auto simp: halts_def)
      from r1 Some True r2 have "returns (\<lambda>n. ParseArgs n a s) (r, s2)"
        by (intro Args_more [of s arg s1]) simp_all
      moreover from u2 pending_le_unparsed [of "getNextTok s1"] unparsed_getNextTok_le [of s1] u1
      have "unparsed s2 \<le> pending s" by simp
      ultimately show ?thesis by (rule haltsI)
    qed
  qed
qed

lemma parser_halts_below:
  "\<forall>s. unparsed s < m \<longrightarrow>
     halts (\<lambda>n. ParsePrimary n s) (pending s) \<and>
     halts (\<lambda>n. ParseIdentifierExpr n s) (pending s) \<and>
     (CurTok s \<noteq> tok_eof \<longrightarrow> halts (\<lambda>n. ParseParenExpr n s) (pending s)) \<and>
     (\<forall>a. halts (\<lambda>n. ParseArgs n a s) (pending s)) \<and>
     halts (\<lambda>n. ParseExpression n s) (pending s) \<and>
     (\<forall>p l. 0 \<le> p \<longrightarrow> halts (\<lambda>n. ParseBinOpRHS n p l s) (unparsed s))"
proof (induction m)
  case 0
  show ?case by simp
next
  case (Suc m)
  then have IHP: "\<And>t. unparsed t < m \<Longrightarrow> halts (\<lambda>n. ParsePrimary n t) (pending t)"
    and IHA: "\<And>t a. unparsed t < m \<Longrightarrow> halts (\<lambda>n. ParseArgs n a t) (pending t)"
    and IHE: "\<And>t. unparsed t < m \<Longrightarrow> halts (\<lambda>n. ParseExpression n t) (pending t)"
    and IHB: "\<And>t p l. unparsed t < m \<Longrightarrow> 0 \<le> p \<Longrightarrow> halts (\<lambda>n. ParseBinOpRHS n p l t) (unparsed t)"
    by blast+
  have B: "halts (\<lambda>n. ParseBinOpRHS n p l t) (unparsed t)" if "unparsed t \<le> m" "0 \<le> p" for t p l
    using IHP IHB that by (rule halts_BinOp_step)
  show ?case
  proof (intro allI impI)
    fix s assume "unparsed s < Suc m"
    then have s: "unparsed s \<le> m" by simp
    have I: "halts (\<lambda>n. ParseIdentifierExpr n s) (pending s)"
      using IHA s by (rule halts_Identifier_step)
    have Pa: "halts (\<lambda>n. ParseParenExpr n s) (pending s)" if "CurTok s \<noteq> tok_eof"
      using IHE s that by (rule halts_Paren_step)
    have P: "halts (\<lambda>n. ParsePrimary n s) (pending s)"
      using I Pa by (rule halts_Primary_step)
    have E: "halts (\<lambda>n. ParseExpression n s) (pending s)"
      using P B s by (rule halts_Expression_step)
    have A: "halts (\<lambda>n. ParseArgs n a s) (pending s)" for a
      using E IHA s by (rule halts_Args_step)
    from P I Pa A E B [OF s]
    show "halts (\<lambda>n. ParsePrimary n s) (pending s) \<and>
     halts (\<lambda>n. ParseIdentifierExpr n s) (pending s) \<and>
     (CurTok s \<noteq> tok_eof \<longrightarrow> halts (\<lambda>n. ParseParenExpr n s) (pending s)) \<and>
     (\<forall>a. halts (\<lambda>n. ParseArgs n a s) (pending s)) \<and>
     halts (\<lambda>n. ParseExpression n s) (pending s) \<and>
     (\<forall>p l. 0 \<le> p \<longrightarrow> halts (\<lambda>n. ParseBinOpRHS n p l s) (unparsed s))"
      by blast
  qed
qed

lemma ParseExpression_total: "\<exists>n r. ParseExpression n s = Some r"
proof -
  from parser_halts_below [of "Suc (unparsed s)"]
  have "halts (\<lambda>n. ParseExpression n s) (pending s)" by simp
  then show ?thesis by (auto simp: halts_def returns_def)
qed

lemma ParseTopLevelExpr_total: "\<exists>n r. ParseTopLevelExpr n s = Some r"
proof -
  from ParseExpression_total [of s] obtain n r where "ParseExpression n s = Some r" by blast
  then have "ParseTopLevelExpr n s \<noteq> None"
    by (auto simp: ParseTopLevelExpr_def split: option.splits prod.splits)
  then show ?thesis by blast
qed

lemma ParseDefinition_total: "\<exists>n r. ParseDefinition n s = Some r"
proof -
  obtain P s1 where p: "ParsePrototype (getNextTok s) = (P, s1)"
    by (cases "ParsePrototype (getNextTok s)")
  from ParseExpression_total [of s1] obtain n r where "ParseExpression n s1 = Some r" by blast
  with p have "ParseDefinition n s \<noteq> None"
    by (auto simp: ParseDefinition_def split: option.splits prod.splits)
  then show ?thesis by blast
qed

subsection \<open>The three precedence examples, on identifiers\<close>

text \<open>
  On identifiers, which the lexer recognises, the parser groups \<open>a*b+c\<close> as \<open>(a*b)+c\<close>
  and \<open>a-b-c\<close> as \<open>(a-b)-c\<close>; on \<open>a+b*c\<close> the operand \<open>b\<close> is lost and the sum has a
  null left operand.
\<close>

lemma tree_of_identifiers_product_sum:
  "ParseExpression (5 + n) (start ''a*b+c'') =
     Some (Some (BinaryExprAST CHR ''+''
                   (Some (BinaryExprAST CHR ''*'' (Some (VariableExprAST ''a''))
                                                 (Some (VariableExprAST ''b''))))
                   (Some (VariableExprAST ''c''))),
           (initial [])\<lparr>LastChar := EOF, IdentifierStr := ''c'', CurTok := tok_eof\<rparr>)"
proof -
  have "ParseExpression 5 (start ''a*b+c'') =
     Some (Some (BinaryExprAST CHR ''+''
                   (Some (BinaryExprAST CHR ''*'' (Some (VariableExprAST ''a''))
                                                 (Some (VariableExprAST ''b''))))
                   (Some (VariableExprAST ''c''))),
           (initial [])\<lparr>LastChar := EOF, IdentifierStr := ''c'', CurTok := tok_eof\<rparr>)"
    by code_simp
  then show ?thesis by (rule ParseExpression_fuel)
qed

lemma tree_of_identifiers_difference:
  "ParseExpression (5 + n) (start ''a-b-c'') =
     Some (Some (BinaryExprAST CHR ''-''
                   (Some (BinaryExprAST CHR ''-'' (Some (VariableExprAST ''a''))
                                                 (Some (VariableExprAST ''b''))))
                   (Some (VariableExprAST ''c''))),
           (initial [])\<lparr>LastChar := EOF, IdentifierStr := ''c'', CurTok := tok_eof\<rparr>)"
proof -
  have "ParseExpression 5 (start ''a-b-c'') =
     Some (Some (BinaryExprAST CHR ''-''
                   (Some (BinaryExprAST CHR ''-'' (Some (VariableExprAST ''a''))
                                                 (Some (VariableExprAST ''b''))))
                   (Some (VariableExprAST ''c''))),
           (initial [])\<lparr>LastChar := EOF, IdentifierStr := ''c'', CurTok := tok_eof\<rparr>)"
    by code_simp
  then show ?thesis by (rule ParseExpression_fuel)
qed

lemma tree_of_identifiers_sum_product:
  "ParseExpression (5 + n) (start ''a+b*c'') =
     Some (Some (BinaryExprAST CHR ''+'' None
                   (Some (BinaryExprAST CHR ''*'' (Some (VariableExprAST ''a''))
                                                 (Some (VariableExprAST ''c''))))),
           (initial [])\<lparr>LastChar := EOF, IdentifierStr := ''c'', CurTok := tok_eof\<rparr>)"
proof -
  have "ParseExpression 5 (start ''a+b*c'') =
     Some (Some (BinaryExprAST CHR ''+'' None
                   (Some (BinaryExprAST CHR ''*'' (Some (VariableExprAST ''a''))
                                                 (Some (VariableExprAST ''c''))))),
           (initial [])\<lparr>LastChar := EOF, IdentifierStr := ''c'', CurTok := tok_eof\<rparr>)"
    by code_simp
  then show ?thesis by (rule ParseExpression_fuel)
qed

subsection \<open>Identifiers\<close>

text \<open>
  The hypothesis \<open>- 1 \<le> LastChar s\<close> below says that the lookahead holds a character or
  \<open>EOF\<close>, as it does initially and after every \<open>getchar\<close>.
\<close>

lemma isalnum_mod_256: "isalnum c \<Longrightarrow> isalnum (c mod 256)"
proof -
  assume a: "isalnum c"
  then have "0 \<le> c" "c < 256" by (auto simp: isalnum_def isalpha_def isdigit_def)
  then have "c mod 256 = c" by simp
  with a show ?thesis by simp
qed

lemma identifier_loop_alnum:
  "list_all (\<lambda>c. isalnum (of_char c)) (IdentifierStr s) \<Longrightarrow>
   list_all (\<lambda>c. isalnum (of_char c)) (IdentifierStr (identifier_loop s))"
proof (induction s rule: identifier_loop.induct)
  case (1 s)
  let ?s1 = "read_LastChar s"
  let ?s2 = "?s1\<lparr>IdentifierStr := IdentifierStr ?s1 @ [char_of (LastChar ?s1)]\<rparr>"
  have id: "IdentifierStr ?s1 = IdentifierStr s"
    by (simp add: read_LastChar_def getchar_def split: list.splits)
  show ?case
  proof (cases "isalnum (LastChar ?s1)")
    case True
    then have eq: "identifier_loop s = identifier_loop ?s2"
      by (subst identifier_loop.simps) (simp add: Let_def)
    from True 1(2) id have "list_all (\<lambda>c. isalnum (of_char c)) (IdentifierStr ?s2)"
      by (simp add: isalnum_mod_256)
    with 1(1) [OF refl True] eq show ?thesis by simp
  next
    case False
    then have "identifier_loop s = ?s1"
      by (subst identifier_loop.simps) (simp add: Let_def)
    with 1(2) id show ?thesis by simp
  qed
qed

lemma gettok_identifier_alnum:
  "- 1 \<le> LastChar s \<Longrightarrow> fst (gettok s) = tok_identifier \<Longrightarrow>
   list_all (\<lambda>c. isalnum (of_char c)) (IdentifierStr (snd (gettok s)))"
proof (induction s rule: gettok.induct)
  case (1 s)
  note IH = 1(1) and v = 1(2) and tok = 1(3)
  let ?s1 = "skip_spaces s"
  have v1: "- 1 \<le> LastChar ?s1" using v by (rule skip_spaces_valid)
  show ?case
  proof (cases "isalpha (LastChar ?s1)")
    case True
    let ?s1' = "?s1\<lparr>IdentifierStr := [char_of (LastChar ?s1)]\<rparr>"
    have "snd (gettok s) = identifier_loop ?s1'"
      using True by (subst gettok_unfold) (simp add: Let_def)
    moreover from True have "isalnum (LastChar ?s1)" by (simp add: isalnum_def)
    then have "list_all (\<lambda>c. isalnum (of_char c)) (IdentifierStr ?s1')"
      by (simp add: isalnum_mod_256)
    then have "list_all (\<lambda>c. isalnum (of_char c)) (IdentifierStr (identifier_loop ?s1'))"
      by (rule identifier_loop_alnum)
    ultimately show ?thesis by simp
  next
    case nalpha: False
    show ?thesis
    proof (cases "LastChar ?s1 = 35")
      case True
      let ?s2 = "comment_loop ?s1"
      have v2: "- 1 \<le> LastChar ?s2" by (rule comment_loop_valid)
      show ?thesis
      proof (cases "LastChar ?s2 \<noteq> EOF")
        case ne: True
        have eq: "gettok s = gettok ?s2"
          using nalpha True ne by (subst gettok_unfold) (simp add: Let_def)
        with tok IH [OF refl nalpha _ True refl ne v2] show ?thesis by simp
      next
        case False
        with nalpha True have "gettok s = (tok_eof, ?s2)"
          by (subst gettok_unfold) (simp add: Let_def)
        with tok show ?thesis by simp
      qed
    next
      case False
      with nalpha have eq: "gettok s = eof_or_char ?s1"
        by (subst gettok_unfold) (simp add: Let_def)
      with v1 tok show ?thesis by (auto simp: eof_or_char_def split: if_splits)
    qed
  qed
qed

lemma anon_expr_not_alnum: "\<not> list_all (\<lambda>c. isalnum (of_char c)) ''__anon_expr''"
  by (simp add: isalnum_def isalpha_def isdigit_def)

lemma ParsePrototype_name:
  "ParsePrototype s = (Some P, s') \<Longrightarrow> CurTok s = tok_identifier \<and> Name P = IdentifierStr s"
  by (auto simp: ParsePrototype_def Let_def split: if_splits prod.splits)

lemma ParseExtern_name:
  assumes v: "- 1 \<le> LastChar s" and p: "ParseExtern s = (Some P, s')"
  shows "list_all (\<lambda>c. isalnum (of_char c)) (Name P)"
proof -
  from p have "ParsePrototype (getNextTok s) = (Some P, s')" by (simp add: ParseExtern_def)
  then have "CurTok (getNextTok s) = tok_identifier" and n: "Name P = IdentifierStr (getNextTok s)"
    using ParsePrototype_name by blast+
  then have "fst (gettok s) = tok_identifier"
    by (simp add: getNextTok_def split: prod.splits)
  with v have "list_all (\<lambda>c. isalnum (of_char c)) (IdentifierStr (snd (gettok s)))"
    by (rule gettok_identifier_alnum)
  moreover have "IdentifierStr (getNextTok s) = IdentifierStr (snd (gettok s))"
    by (simp add: getNextTok_def split: prod.splits)
  ultimately show ?thesis using n by simp
qed

lemma ParseDefinition_name:
  assumes v: "- 1 \<le> LastChar s" and p: "ParseDefinition n s = Some (Some Fn, s')"
  shows "list_all (\<lambda>c. isalnum (of_char c)) (Name (Proto Fn))"
proof -
  from p obtain s1 where "ParseExtern s = (Some (Proto Fn), s1)"
    by (auto simp: ParseDefinition_def ParseExtern_def split: prod.splits option.splits)
  with v show ?thesis by (rule ParseExtern_name)
qed

section \<open>Properties of the lowering\<close>

lemma update_function_names [simp]:
  "map fst (FunctionList (update_function F g M)) = map fst (FunctionList M)"
  by (simp add: update_function_def case_prod_unfold cong: if_cong)

lemma emit_names [simp]: "function_names (emit v s) = function_names s"
  by (simp add: emit_def function_names_def split: option.splits prod.splits)

lemma LogError_names [simp]: "function_names (LogError e s) = function_names s"
  by (simp add: LogError_def function_names_def)

lemma NamedValues_index_names:
  "NamedValues_index n s = (V, s') \<Longrightarrow> function_names s' = function_names s"
  by (auto simp add: NamedValues_index_def function_names_def split: option.splits)

lemma Create_names [simp]: "function_names (snd (Create v s)) = function_names s"
  by (simp add: Create_def)

lemma CreateFAdd_names [simp]: "function_names (snd (CreateFAdd L R s)) = function_names s"
  by (induction L R s rule: CreateFAdd.induct) simp_all

lemma CreateFSub_names [simp]: "function_names (snd (CreateFSub L R s)) = function_names s"
  by (induction L R s rule: CreateFSub.induct) simp_all

lemma CreateFMul_names [simp]: "function_names (snd (CreateFMul L R s)) = function_names s"
  by (induction L R s rule: CreateFMul.induct) simp_all

lemma CreateFCmpULT_names [simp]: "function_names (snd (CreateFCmpULT L R s)) = function_names s"
  by (induction L R s rule: CreateFCmpULT.induct) simp_all

lemma CreateUIToFP_names [simp]: "function_names (snd (CreateUIToFP V s)) = function_names s"
  by (induction V s rule: CreateUIToFP.induct) simp_all

lemma binop_names [simp]: "function_names (snd (binop Op L R s)) = function_names s"
proof -
  obtain L' s1 where c: "CreateFCmpULT L R s = (L', s1)" by (cases "CreateFCmpULT L R s")
  then have "function_names s1 = function_names s"
    using CreateFCmpULT_names [of L R s] by simp
  with c show ?thesis by (simp add: binop_def)
qed

lemma codegen_names:
  "codegen e s = Some (V, s') \<Longrightarrow> function_names s' = function_names s"
  "codegen_ptr p s = Some (V, s') \<Longrightarrow> function_names s' = function_names s"
  "codegen_args es acc s = Some (Vs, s') \<Longrightarrow> function_names s' = function_names s"
proof (induction e s and p s and es acc s arbitrary: V s' and V s' and Vs s'
       rule: codegen_codegen_ptr_codegen_args.induct)
  case (1 x s)
  then show ?case by simp
next
  case (2 n s)
  then show ?case
    by (auto split: prod.splits option.splits dest: NamedValues_index_names)
next
  case (3 Op LHS RHS s)
  from "3.prems" obtain L s1 R s2 where
    l: "codegen_ptr LHS s = Some (L, s1)" and r: "codegen_ptr RHS s1 = Some (R, s2)"
    by (auto split: option.splits prod.splits)
  from "3.IH"(1) [OF l] have n1: "function_names s1 = function_names s" .
  from "3.IH"(2) [OF l refl r] have n2: "function_names s2 = function_names s1" .
  from "3.prems" l r have "s' = s2 \<or> (\<exists>lv rv. (V, s') = binop Op lv rv s2)"
    by (auto split: option.splits) metis
  then show ?case
  proof
    assume "s' = s2" with n1 n2 show ?thesis by simp
  next
    assume "\<exists>lv rv. (V, s') = binop Op lv rv s2"
    then obtain lv rv where "(V, s') = binop Op lv rv s2" by blast
    then have "s' = snd (binop Op lv rv s2)" by (metis snd_conv)
    with n1 n2 show ?thesis by simp
  qed
next
  case (4 Callee args s)
  show ?case
  proof (cases "getFunction (TheModule s) Callee")
    case None
    with "4.prems" show ?thesis by auto
  next
    case (Some CalleeF)
    show ?thesis
    proof (cases "arg_size (TheModule s) CalleeF \<noteq> length args")
      case True
      with Some "4.prems" show ?thesis by auto
    next
      case False
      with Some "4.prems" obtain Vs s1 where
        a: "codegen_args args [] s = Some (Vs, s1)"
        by (auto split: option.splits prod.splits)
      from "4.IH" [OF Some False a] have n1: "function_names s1 = function_names s" .
      from "4.prems" Some False a show ?thesis
        using n1 by (auto simp: Create_def split: option.splits)
    qed
  qed
next
  case (5 s)
  then show ?case by simp
next
  case (6 e s)
  then show ?case by simp
next
  case (7 ArgsV s)
  then show ?case by simp
next
  case (8 i rest ArgsV s)
  from "8.prems" obtain v s1 where i: "codegen i s = Some (v, s1)"
    by (auto split: option.splits prod.splits)
  from "8.IH"(1) [OF i] have n1: "function_names s1 = function_names s" .
  show ?case
  proof (cases v)
    case None
    with "8.prems" i n1 show ?thesis by auto
  next
    case (Some x)
    with "8.prems" i have "codegen_args rest (ArgsV @ [x]) s1 = Some (Vs, s')" by simp
    from "8.IH"(2) [OF i refl Some this] n1 show ?thesis by simp
  qed
qed

lemma makeUniqueName_fresh: "fst (makeUniqueName base dot taken counter) \<notin> set taken"
proof (induction base dot taken counter rule: makeUniqueName.induct)
  case (1 base dot taken counter)
  show ?case
  proof (cases "unique_candidate base dot (Suc counter) \<in> set taken")
    case True
    with 1 show ?thesis by (subst makeUniqueName.simps) (simp add: Let_def)
  next
    case False
    then show ?thesis by (subst makeUniqueName.simps) (simp add: Let_def)
  qed
qed

lemma codegen_args_step:
  "codegen i s = Some (Some V, s1) \<Longrightarrow>
   codegen_args (i # rest) ArgsV s = codegen_args rest (ArgsV @ [V]) s1"
  by simp

lemma codegen_args_chain:
  "length ss = Suc k \<Longrightarrow> length vs = k \<Longrightarrow> k \<le> length args \<Longrightarrow>
   (\<forall>i<k. codegen (args ! i) (ss ! i) = Some (Some (vs ! i), ss ! Suc i)) \<Longrightarrow>
   codegen_args args ArgsV (ss ! 0) = codegen_args (drop k args) (ArgsV @ vs) (ss ! k)"
proof (induction k arbitrary: ss vs)
  case 0
  then show ?case by simp
next
  case (Suc k)
  let ?ss = "take (Suc k) ss" and ?vs = "take k vs"
  have "codegen_args args ArgsV (?ss ! 0) = codegen_args (drop k args) (ArgsV @ ?vs) (?ss ! k)"
  proof (rule Suc.IH)
    show "length ?ss = Suc k" using Suc.prems by simp
    show "length ?vs = k" using Suc.prems by simp
    show "k \<le> length args" using Suc.prems by simp
    show "\<forall>i<k. codegen (args ! i) (?ss ! i) = Some (Some (?vs ! i), ?ss ! Suc i)"
      using Suc.prems by simp
  qed
  then have 1: "codegen_args args ArgsV (ss ! 0) = codegen_args (drop k args) (ArgsV @ ?vs) (ss ! k)"
    by simp
  have d: "drop k args = args ! k # drop (Suc k) args"
    using Suc.prems by (simp add: Cons_nth_drop_Suc)
  have c: "codegen (args ! k) (ss ! k) = Some (Some (vs ! k), ss ! Suc k)"
    using Suc.prems by simp
  have v: "?vs @ [vs ! k] = vs"
    using Suc.prems by (metis lessI take_Suc_conv_app_nth take_all order_refl)
  from 1 d codegen_args_step [OF c, of "drop (Suc k) args" "ArgsV @ ?vs"] v
  show ?case by simp
qed

lemma getFunction_erase: "getFunction (eraseFromParent F M) F = None"
  by (auto simp: getFunction_def eraseFromParent_def)

lemma Function_Create_absent:
  "getFunction M name = None \<Longrightarrow> fst (Function_Create name n M) = name"
  by (auto simp: getFunction_def Function_Create_def Let_def split: if_splits)

lemma PrototypeAST_codegen_absent:
  "getFunction (TheModule s) (Name P) = None \<Longrightarrow> fst (PrototypeAST_codegen P s) = Some (Name P)"
  using Function_Create_absent [of "TheModule s" "Name P" "length (Args P)"]
  by (auto simp add: PrototypeAST_codegen_def split: prod.splits)

lemma getFunction_Some: "getFunction M name = Some F \<Longrightarrow> F = name"
  by (simp add: getFunction_def split: if_splits)

lemma NamedValues_assign_keys:
  "fst ` set (NamedValues_assign n V nv) = insert n (fst ` set nv)"
  by (auto simp: NamedValues_assign_def image_iff split: if_splits) force+

lemma scope_fold_keys:
  "fst ` set (foldl (\<lambda>nv (i, n). NamedValues_assign n (Argument F i) nv) nv (enumerate k names)) =
   fst ` set nv \<union> set names"
proof (induction names arbitrary: nv k)
  case Nil
  then show ?case by simp
next
  case (Cons a names)
  show ?case
    by (simp add: Cons.IH NamedValues_assign_keys)
qed

lemma scope_of_keys: "fst ` set (scope_of F names) = set names"
  by (simp add: scope_of_def scope_fold_keys)

lemma map_of_update_function:
  "map_of (FunctionList (update_function F g M)) n =
     (if n = F then map_option g (map_of (FunctionList M) n) else map_of (FunctionList M) n)"
proof -
  have "map_of (map (\<lambda>(k, f). if k = F then (k, g f) else (k, f)) xs) n =
        (if n = F then map_option g (map_of xs n) else map_of xs n)" for xs
    by (induction xs) auto
  then show ?thesis by (simp add: update_function_def)
qed

lemma function_args_BasicBlock_Create:
  "function_args (snd (BasicBlock_Create F M)) F = function_args M F"
  by (simp add: BasicBlock_Create_def function_args_def map_of_update_function
      split: option.splits)

lemma enter_function_scope:
  "NamedValues (enter_function F s) = scope_of F (function_args (TheModule s) F)"
  using function_args_BasicBlock_Create [of F "TheModule s"]
  by (auto simp add: enter_function_def split: prod.splits)

lemma Function_Create_names:
  "function_names (s\<lparr>TheModule := snd (Function_Create name n (TheModule s))\<rparr>) =
     function_names s @ [fst (Function_Create name n (TheModule s))]"
  by (simp add: Function_Create_def function_names_def Let_def split: prod.splits)

lemma Function_Create_fresh:
  "fst (Function_Create name n M) \<notin> fst ` set (FunctionList M)"
proof (cases "name \<in> set (map fst (FunctionList M))")
  case True
  then have "fst (Function_Create name n M) =
             fst (makeUniqueName name True (map fst (FunctionList M)) (LastUnique M))"
    by (simp add: Function_Create_def Let_def split: prod.splits)
  with makeUniqueName_fresh [of name True "map fst (FunctionList M)" "LastUnique M"]
  show ?thesis by simp
next
  case False
  then have "fst (Function_Create name n M) = name"
    by (simp add: Function_Create_def Let_def)
  with False show ?thesis by simp
qed

lemma PrototypeAST_codegen_creates:
  "\<exists>F'. fst (PrototypeAST_codegen P s) = Some F' \<and> F' \<notin> set (function_names s) \<and>
        function_names (snd (PrototypeAST_codegen P s)) = function_names s @ [F']"
proof -
  obtain F M where c: "Function_Create (Name P) (length (Args P)) (TheModule s) = (F, M)"
    by (cases "Function_Create (Name P) (length (Args P)) (TheModule s)")
  from c Function_Create_fresh [of "Name P" "length (Args P)" "TheModule s"]
  have 1: "F \<notin> set (function_names s)" by (simp add: function_names_def)
  from c Function_Create_names [of "Name P" "length (Args P)" s]
  have 2: "map fst (FunctionList M) = function_names s @ [F]" by (simp add: function_names_def)
  from c have "PrototypeAST_codegen P s =
      (Some F, s\<lparr>TheModule := update_function F (\<lambda>f. f\<lparr>arg_names := setArgNames (Args P) [] 0\<rparr>) M\<rparr>)"
    by (simp add: PrototypeAST_codegen_def)
  with 1 2 show ?thesis by (simp add: function_names_def)
qed

lemma enter_function_names [simp]: "function_names (enter_function F s) = function_names s"
  by (auto simp add: enter_function_def BasicBlock_Create_def function_names_def
      split: prod.splits option.splits)

section \<open>The claims\<close>

text \<open>
  C1. Parsing \<open>1+2*3\<close> does not build \<open>1+(2*3)\<close>: whatever the depth bound from 5 on,
  the result is the node \<open>+\<close> with a null left operand and the product of the first and
  the third operand as its right operand; the second operand is dropped. The three
  operands are moreover \<open>NumberExprAST 0\<close>, each after an "unknown token" diagnostic,
  since the lexer hands the digits over as character tokens.
\<close>

theorem sum_product_example_loses_operand:
  "ParseExpression (5 + n) (start ''1+2*3'') =
     Some (Some (BinaryExprAST CHR ''+'' None
                   (Some (BinaryExprAST CHR ''*'' (Some (NumberExprAST 0))
                                                 (Some (NumberExprAST 0))))),
           (initial [])\<lparr>out := replicate 3 ''Log Error: Unkown token while parsing!'',
                         LastChar := EOF, CurTok := tok_eof\<rparr>)"
proof -
  have "ParseExpression 5 (start ''1+2*3'') =
     Some (Some (BinaryExprAST CHR ''+'' None
                   (Some (BinaryExprAST CHR ''*'' (Some (NumberExprAST 0))
                                                 (Some (NumberExprAST 0))))),
           (initial [])\<lparr>out := replicate 3 ''Log Error: Unkown token while parsing!'',
                         LastChar := EOF, CurTok := tok_eof\<rparr>)"
    by code_simp
  then show ?thesis by (rule ParseExpression_fuel)
qed

text \<open>
  C2. A numeral is not lexed as one \<open>tok_number\<close>: on the input \<open>1.5\<close> the lexer yields
  the three character tokens \<open>'1'\<close>, \<open>'.'\<close>, \<open>'5'\<close> and then \<open>tok_eof\<close>, and \<open>NumVal\<close>
  keeps its initial value. (The test that guards the number branch is applied to a truth
  value, see \<open>numeral_test_False\<close>; by \<open>gettok_never_tok_number\<close> no input yields
  \<open>tok_number\<close>.)
\<close>

theorem numeral_lexed_as_characters:
  "fst (gettok (initial ''1.5'')) = 49 \<and>
   NumVal (snd (gettok (initial ''1.5''))) = 0 \<and>
   fst (gettok (snd (gettok (initial ''1.5'')))) = 46 \<and>
   fst (gettok (snd (gettok (snd (gettok (initial ''1.5'')))))) = 53 \<and>
   fst (gettok (snd (gettok (snd (gettok (snd (gettok (initial ''1.5'')))))))) = tok_eof"
  by code_simp

text \<open>
  C3. When the current token is neither \<open>tok_number\<close>, \<open>tok_identifier\<close> nor \<open>'('\<close>,
  \<open>ParsePrimary\<close> prints the diagnostic and then returns a number node holding the
  current \<open>NumVal\<close>, having consumed the token: the result is not the null pointer.
\<close>

theorem ParsePrimary_unknown_token:
  "CurTok s \<noteq> tok_number \<Longrightarrow> CurTok s \<noteq> tok_identifier \<Longrightarrow> CurTok s \<noteq> 40 \<Longrightarrow>
   ParsePrimary (Suc n) s =
     Some (Some (NumberExprAST (NumVal s)),
           getNextTok (LogError ''Unkown token while parsing!'' s))"
  by (simp add: ParsePrimary_tokens)

theorem ParsePrimary_unknown_token_witness:
  "CurTok (start '')'') = 41 \<and>
   ParsePrimary (Suc 0) (start '')'') =
     Some (Some (NumberExprAST 0),
           (initial [])\<lparr>out := [''Log Error: Unkown token while parsing!''],
                         LastChar := EOF, CurTok := tok_eof\<rparr>)"
proof -
  have c: "CurTok (start '')'') = 41" by code_simp
  have v: "NumVal (start '')'') = 0" by code_simp
  have g: "getNextTok (LogError ''Unkown token while parsing!'' (start '')'')) =
           (initial [])\<lparr>out := [''Log Error: Unkown token while parsing!''],
                         LastChar := EOF, CurTok := tok_eof\<rparr>" by code_simp
  from c have "ParsePrimary (Suc 0) (start '')'') =
     Some (Some (NumberExprAST (NumVal (start '')''))),
           getNextTok (LogError ''Unkown token while parsing!'' (start '')'')))"
    by (intro ParsePrimary_unknown_token) simp_all
  with c v g show ?thesis by simp
qed

text \<open>
  C4, as stated, fails: \<open>PrototypeAST::codegen\<close> does not look the name up. Handling
  \<open>extern foo(a b)\<close> twice leaves two functions in the module, \<open>foo\<close> and \<open>foo.1\<close>; and
  lowering a prototype named \<open>foo\<close> in a module that has \<open>foo\<close> returns the new handle
  \<open>foo.1\<close>, not the existing one.
\<close>

theorem extern_twice_creates_second_function:
  "function_names (HandleExtern (start ''extern foo(a b) extern foo(a b)'')) = [''foo''] \<and>
   function_names (HandleExtern (HandleExtern (start ''extern foo(a b) extern foo(a b)''))) =
     [''foo'', ''foo.1''] \<and>
   getFunction (TheModule lowering_example) ''foo'' = Some ''foo'' \<and>
   fst (PrototypeAST_codegen \<lparr>Name = ''foo'', Args = [''a'', ''b'']\<rparr> lowering_example) =
     Some ''foo.1'' \<and>
   function_names (snd (PrototypeAST_codegen \<lparr>Name = ''foo'', Args = [''a'', ''b'']\<rparr> lowering_example)) =
     [''foo'', ''foo.1'']"
  by code_simp

text \<open>
  C4, amended. Lowering a prototype always creates a function entry: the handle it
  returns was not in the module before, and the module holds the functions it held plus
  that one. An existing handle is reused by the lowering of a function definition,
  which looks the name up before it lowers the prototype: when a function of that name
  exists, a successful lowering returns the existing handle and the module holds the
  same functions as before.
\<close>

theorem prototype_lowering_always_creates:
  "(\<exists>F'. fst (PrototypeAST_codegen P s) = Some F' \<and> F' \<notin> set (function_names s) \<and>
         function_names (snd (PrototypeAST_codegen P s)) = function_names s @ [F']) \<and>
   (getFunction (TheModule s) (Name (Proto Fn)) = Some F \<and>
    FunctionAST_codegen Fn s = Some (Some H, s') \<longrightarrow>
      H = F \<and> function_names s' = function_names s)"
proof (intro conjI impI)
  show "\<exists>F'. fst (PrototypeAST_codegen P s) = Some F' \<and> F' \<notin> set (function_names s) \<and>
         function_names (snd (PrototypeAST_codegen P s)) = function_names s @ [F']"
    by (rule PrototypeAST_codegen_creates)
next
  assume a: "getFunction (TheModule s) (Name (Proto Fn)) = Some F \<and>
    FunctionAST_codegen Fn s = Some (Some H, s')"
  then obtain RetVal s2 where
    b: "codegen (Body Fn) (enter_function F s) = Some (Some RetVal, s2)"
    and r: "H = F" "s' = emit (Ret RetVal) s2"
    by (auto simp: FunctionAST_codegen_def split: option.splits prod.splits)
  from r show "H = F" by simp
  from codegen_names(1) [OF b] r show "function_names s' = function_names s" by simp
qed

theorem prototype_lowering_always_creates_witness:
  "fst (PrototypeAST_codegen \<lparr>Name = ''foo'', Args = [''a'', ''b'']\<rparr> lowering_example) = Some ''foo.1'' \<and>
   ''foo.1'' \<notin> set (function_names lowering_example) \<and>
   function_names (snd (PrototypeAST_codegen \<lparr>Name = ''foo'', Args = [''a'', ''b'']\<rparr> lowering_example)) =
     function_names lowering_example @ [''foo.1''] \<and>
   getFunction (TheModule lowering_example) ''foo'' = Some ''foo'' \<and>
   FunctionAST_codegen \<lparr>Proto = \<lparr>Name = ''foo'', Args = [''a'', ''b'']\<rparr>, Body = VariableExprAST ''a''\<rparr>
       lowering_example =
     Some (Some ''foo'',
           lowering_example
             \<lparr>TheModule := \<lparr>FunctionList =
                  [(''foo'', \<lparr>arg_names = [''a'', ''b''], blocks = [[Ret (Argument ''foo'' 0)]]\<rparr>)],
                  LastUnique = 0\<rparr>,
              InsertPoint := Some (''foo'', 0),
              NamedValues := [(''a'', Some (Argument ''foo'' 0)), (''b'', Some (Argument ''foo'' 1))]\<rparr>) \<and>
   function_names (lowering_example
             \<lparr>TheModule := \<lparr>FunctionList =
                  [(''foo'', \<lparr>arg_names = [''a'', ''b''], blocks = [[Ret (Argument ''foo'' 0)]]\<rparr>)],
                  LastUnique = 0\<rparr>,
              InsertPoint := Some (''foo'', 0),
              NamedValues := [(''a'', Some (Argument ''foo'' 0)), (''b'', Some (Argument ''foo'' 1))]\<rparr>) =
     function_names lowering_example"
proof -
  let ?P = "\<lparr>Name = ''foo'', Args = [''a'', ''b'']\<rparr>"
  let ?Fn = "\<lparr>Proto = ?P, Body = VariableExprAST ''a''\<rparr>"
  let ?s' = "lowering_example
             \<lparr>TheModule := \<lparr>FunctionList =
                  [(''foo'', \<lparr>arg_names = [''a'', ''b''], blocks = [[Ret (Argument ''foo'' 0)]]\<rparr>)],
                  LastUnique = 0\<rparr>,
              InsertPoint := Some (''foo'', 0),
              NamedValues := [(''a'', Some (Argument ''foo'' 0)), (''b'', Some (Argument ''foo'' 1))]\<rparr>"
  have p: "fst (PrototypeAST_codegen ?P lowering_example) = Some ''foo.1''" by code_simp
  have g: "getFunction (TheModule lowering_example) ''foo'' = Some ''foo''" by code_simp
  have f: "FunctionAST_codegen ?Fn lowering_example = Some (Some ''foo'', ?s')" by code_simp
  from prototype_lowering_always_creates [of ?P lowering_example ?Fn "''foo''" "''foo''" ?s'] p g f
  have "''foo.1'' \<notin> set (function_names lowering_example) \<and>
        function_names (snd (PrototypeAST_codegen ?P lowering_example)) =
          function_names lowering_example @ [''foo.1''] \<and>
        function_names ?s' = function_names lowering_example"
    by auto
  with p g f show ?thesis by blast
qed





text \<open>
  C6. Lowering a call fails with the unknown-function diagnostic when the callee is not
  in the module, and with the argument-count diagnostic when the number of parameters
  of the function found differs from the number of arguments; in both cases the state
  changes by that one line only, so no argument is lowered and nothing is emitted.
  Otherwise the arguments are lowered from left to right, each in the state left by the
  one before (\<open>ss\<close> is that chain of states, \<open>vs\<close> the values): if all succeed the call
  instruction on these values is emitted, and if the first \<open>k\<close> succeed and the next one
  fails, the lowering fails in the state that argument left.
\<close>

theorem call_lowering:
  "(getFunction (TheModule s) Callee = None \<longrightarrow>
      codegen (CallExprAST Callee args) s =
        Some (None, LogError ''Unkown function referenced!'' s)) \<and>
   (getFunction (TheModule s) Callee = Some F \<and> arg_size (TheModule s) F \<noteq> length args \<longrightarrow>
      codegen (CallExprAST Callee args) s =
        Some (None, LogError ''Incorrect argument number!'' s)) \<and>
   (getFunction (TheModule s) Callee = Some F \<and> arg_size (TheModule s) F = length args \<and>
    length ss = Suc k \<and> length vs = k \<and> k \<le> length args \<and> ss ! 0 = s \<and>
    (\<forall>i<k. codegen (args ! i) (ss ! i) = Some (Some (vs ! i), ss ! Suc i)) \<longrightarrow>
      (k = length args \<longrightarrow>
         codegen (CallExprAST Callee args) s =
           Some (Some (Call F vs), emit (Call F vs) (ss ! k))) \<and>
      (k < length args \<and> codegen (args ! k) (ss ! k) = Some (None, s') \<longrightarrow>
         codegen (CallExprAST Callee args) s = Some (None, s')))"
proof (intro conjI impI)
  assume "getFunction (TheModule s) Callee = None"
  then show "codegen (CallExprAST Callee args) s =
        Some (None, LogError ''Unkown function referenced!'' s)" by simp
next
  assume "getFunction (TheModule s) Callee = Some F \<and> arg_size (TheModule s) F \<noteq> length args"
  then show "codegen (CallExprAST Callee args) s =
        Some (None, LogError ''Incorrect argument number!'' s)" by simp
next
  assume a: "getFunction (TheModule s) Callee = Some F \<and> arg_size (TheModule s) F = length args \<and>
    length ss = Suc k \<and> length vs = k \<and> k \<le> length args \<and> ss ! 0 = s \<and>
    (\<forall>i<k. codegen (args ! i) (ss ! i) = Some (Some (vs ! i), ss ! Suc i))"
  then have ch: "codegen_args args [] s = codegen_args (drop k args) vs (ss ! k)"
    using codegen_args_chain [of ss k vs args "[]"] by auto
  {
    assume "k = length args"
    with ch have "codegen_args args [] s = Some (Some vs, ss ! k)" by simp
    with a show "codegen (CallExprAST Callee args) s =
           Some (Some (Call F vs), emit (Call F vs) (ss ! k))"
      by (simp add: Create_def)
  next
    assume b: "k < length args \<and> codegen (args ! k) (ss ! k) = Some (None, s')"
    then have "drop k args = args ! k # drop (Suc k) args" by (simp add: Cons_nth_drop_Suc)
    with ch b have "codegen_args args [] s = Some (None, s')" by simp
    with a show "codegen (CallExprAST Callee args) s = Some (None, s')" by simp
  }
qed

theorem call_lowering_witness:
  "getFunction (TheModule lowering_example) ''bar'' = None \<and>
   codegen (CallExprAST ''bar'' [VariableExprAST ''y'']) lowering_example =
     Some (None, LogError ''Unkown function referenced!'' lowering_example) \<and>
   getFunction (TheModule lowering_example) ''foo'' = Some ''foo'' \<and>
   arg_size (TheModule lowering_example) ''foo'' = 2 \<and>
   codegen (CallExprAST ''foo'' [VariableExprAST ''y'']) lowering_example =
     Some (None, LogError ''Incorrect argument number!'' lowering_example) \<and>
   codegen (VariableExprAST ''x'') lowering_example =
     Some (Some (Argument ''f'' 0), lowering_example) \<and>
   codegen (NumberExprAST 1) lowering_example = Some (Some (ConstantFP 1), lowering_example) \<and>
   codegen (CallExprAST ''foo'' [VariableExprAST ''x'', NumberExprAST 1]) lowering_example =
     Some (Some (Call ''foo'' [Argument ''f'' 0, ConstantFP 1]),
           emit (Call ''foo'' [Argument ''f'' 0, ConstantFP 1]) lowering_example) \<and>
   codegen (VariableExprAST ''y'') lowering_example =
     Some (None, lowering_example\<lparr>out := [''Log Error: Unkown variable name!''],
                                  NamedValues := [(''x'', Some (Argument ''f'' 0)), (''y'', None)]\<rparr>) \<and>
   codegen (CallExprAST ''foo'' [VariableExprAST ''y'', VariableExprAST ''z'']) lowering_example =
     Some (None, lowering_example\<lparr>out := [''Log Error: Unkown variable name!''],
                                  NamedValues := [(''x'', Some (Argument ''f'' 0)), (''y'', None)]\<rparr>)"
proof -
  let ?s = lowering_example
  let ?sy = "lowering_example\<lparr>out := [''Log Error: Unkown variable name!''],
               NamedValues := [(''x'', Some (Argument ''f'' 0)), (''y'', None)]\<rparr>"
  have g0: "getFunction (TheModule ?s) ''bar'' = None" by code_simp
  have g1: "getFunction (TheModule ?s) ''foo'' = Some ''foo''" by code_simp
  have n: "arg_size (TheModule ?s) ''foo'' = 2" by code_simp
  have x: "codegen (VariableExprAST ''x'') ?s = Some (Some (Argument ''f'' 0), ?s)" by code_simp
  have c: "codegen (NumberExprAST 1) ?s = Some (Some (ConstantFP 1), ?s)" by simp
  have y: "codegen (VariableExprAST ''y'') ?s = Some (None, ?sy)" by code_simp
  from call_lowering [of ?s "''bar''" "[VariableExprAST ''y'']"] g0
  have 1: "codegen (CallExprAST ''bar'' [VariableExprAST ''y'']) ?s =
     Some (None, LogError ''Unkown function referenced!'' ?s)" by blast
  from call_lowering [of ?s "''foo''" "[VariableExprAST ''y'']" "''foo''"] g1 n
  have 2: "codegen (CallExprAST ''foo'' [VariableExprAST ''y'']) ?s =
     Some (None, LogError ''Incorrect argument number!'' ?s)" by simp
  have h3: "\<forall>i<2. codegen ([VariableExprAST ''x'', NumberExprAST 1] ! i) ([?s, ?s, ?s] ! i) =
              Some (Some ([Argument ''f'' 0, ConstantFP 1] ! i), [?s, ?s, ?s] ! Suc i)"
    using x c by (simp add: less_Suc_eq numeral_2_eq_2)
  from call_lowering [of ?s "''foo''" "[VariableExprAST ''x'', NumberExprAST 1]" "''foo''"
      "[?s, ?s, ?s]" 2 "[Argument ''f'' 0, ConstantFP 1]"] g1 n h3
  have 3: "codegen (CallExprAST ''foo'' [VariableExprAST ''x'', NumberExprAST 1]) ?s =
     Some (Some (Call ''foo'' [Argument ''f'' 0, ConstantFP 1]),
           emit (Call ''foo'' [Argument ''f'' 0, ConstantFP 1]) ?s)" by simp
  from call_lowering [of ?s "''foo''" "[VariableExprAST ''y'', VariableExprAST ''z'']" "''foo''"
      "[?s]" 0 "[]" ?sy] g1 n y
  have 4: "codegen (CallExprAST ''foo'' [VariableExprAST ''y'', VariableExprAST ''z'']) ?s =
     Some (None, ?sy)" by simp
  from g0 1 g1 n 2 x c 3 y 4 show ?thesis by blast
qed

text \<open>
  C7. If lowering the body of a function fails, the function named by the prototype is
  erased from the module and the lowering returns the null handle. That holds when the
  handle was created by this lowering and also when a function of that name was in the
  module before (an earlier declaration): that function is erased, so the name is no
  longer known to the module afterwards.
\<close>

theorem failed_body_erases_function:
  "(getFunction (TheModule s) (Name (Proto Fn)) = Some F \<and>
    codegen (Body Fn) (enter_function F s) = Some (None, s2) \<longrightarrow>
      FunctionAST_codegen Fn s =
        Some (None, s2\<lparr>TheModule := eraseFromParent F (TheModule s2)\<rparr>) \<and>
      getFunction (eraseFromParent F (TheModule s2)) (Name (Proto Fn)) = None) \<and>
   (getFunction (TheModule s) (Name (Proto Fn)) = None \<and>
    PrototypeAST_codegen (Proto Fn) s = (Some F, s1) \<and>
    codegen (Body Fn) (enter_function F s1) = Some (None, s2) \<longrightarrow>
      FunctionAST_codegen Fn s =
        Some (None, s2\<lparr>TheModule := eraseFromParent F (TheModule s2)\<rparr>) \<and>
      getFunction (eraseFromParent F (TheModule s2)) (Name (Proto Fn)) = None) \<and>
   (FunctionAST_codegen Fn s = Some (None, s') \<longrightarrow>
      getFunction (TheModule s') (Name (Proto Fn)) = None)"
proof (intro conjI impI)
  assume a: "getFunction (TheModule s) (Name (Proto Fn)) = Some F \<and>
    codegen (Body Fn) (enter_function F s) = Some (None, s2)"
  then show "FunctionAST_codegen Fn s =
        Some (None, s2\<lparr>TheModule := eraseFromParent F (TheModule s2)\<rparr>)"
    by (simp add: FunctionAST_codegen_def)
  from a have "F = Name (Proto Fn)" using getFunction_Some by blast
  then show "getFunction (eraseFromParent F (TheModule s2)) (Name (Proto Fn)) = None"
    by (simp add: getFunction_erase)
next
  assume a: "getFunction (TheModule s) (Name (Proto Fn)) = None \<and>
    PrototypeAST_codegen (Proto Fn) s = (Some F, s1) \<and>
    codegen (Body Fn) (enter_function F s1) = Some (None, s2)"
  then show "FunctionAST_codegen Fn s =
        Some (None, s2\<lparr>TheModule := eraseFromParent F (TheModule s2)\<rparr>)"
    by (simp add: FunctionAST_codegen_def)
  from a PrototypeAST_codegen_absent [of s "Proto Fn"] have "F = Name (Proto Fn)" by simp
  then show "getFunction (eraseFromParent F (TheModule s2)) (Name (Proto Fn)) = None"
    by (simp add: getFunction_erase)
next
  assume r: "FunctionAST_codegen Fn s = Some (None, s')"
  show "getFunction (TheModule s') (Name (Proto Fn)) = None"
  proof (cases "getFunction (TheModule s) (Name (Proto Fn))")
    case (Some F)
    then have F: "F = Name (Proto Fn)" by (rule getFunction_Some)
    from r Some obtain s2 where "s' = s2\<lparr>TheModule := eraseFromParent F (TheModule s2)\<rparr>"
      by (auto simp: FunctionAST_codegen_def split: option.splits prod.splits)
    with F show ?thesis by (simp add: getFunction_erase)
  next
    case None
    obtain H s1 where p: "PrototypeAST_codegen (Proto Fn) s = (H, s1)" by (cases "PrototypeAST_codegen (Proto Fn) s")
    with None PrototypeAST_codegen_absent [of s "Proto Fn"] have H: "H = Some (Name (Proto Fn))" by simp
    from r None p H obtain s2 where
      "s' = s2\<lparr>TheModule := eraseFromParent (Name (Proto Fn)) (TheModule s2)\<rparr>"
      by (auto simp: FunctionAST_codegen_def split: option.splits prod.splits)
    then show ?thesis by (simp add: getFunction_erase)
  qed
qed

theorem failed_body_erases_function_witness:
  "getFunction (TheModule lowering_example) ''foo'' = Some ''foo'' \<and>
   codegen (VariableExprAST ''y'') (enter_function ''foo'' lowering_example) =
     Some (None, (enter_function ''foo'' lowering_example)
                   \<lparr>out := [''Log Error: Unkown variable name!''],
                    NamedValues := [(''a'', Some (Argument ''foo'' 0)),
                                    (''b'', Some (Argument ''foo'' 1)), (''y'', None)]\<rparr>) \<and>
   FunctionAST_codegen \<lparr>Proto = \<lparr>Name = ''foo'', Args = [''a'', ''b'']\<rparr>,
                        Body = VariableExprAST ''y''\<rparr> lowering_example =
     Some (None, lowering_example
                   \<lparr>out := [''Log Error: Unkown variable name!''],
                    TheModule := \<lparr>FunctionList = [], LastUnique = 0\<rparr>,
                    InsertPoint := Some (''foo'', 0),
                    NamedValues := [(''a'', Some (Argument ''foo'' 0)),
                                    (''b'', Some (Argument ''foo'' 1)), (''y'', None)]\<rparr>) \<and>
   getFunction \<lparr>FunctionList = [], LastUnique = 0\<rparr> ''foo'' = None \<and>
   getFunction (TheModule lowering_example) ''bar'' = None \<and>
   PrototypeAST_codegen \<lparr>Name = ''bar'', Args = [''x'']\<rparr> lowering_example =
     (Some ''bar'',
      lowering_example\<lparr>TheModule :=
        \<lparr>FunctionList = [(''foo'', \<lparr>arg_names = [''a'', ''b''], blocks = []\<rparr>),
                          (''bar'', \<lparr>arg_names = [''x''], blocks = []\<rparr>)],
         LastUnique = 0\<rparr>\<rparr>) \<and>
   FunctionAST_codegen \<lparr>Proto = \<lparr>Name = ''bar'', Args = [''x'']\<rparr>,
                        Body = VariableExprAST ''y''\<rparr> lowering_example =
     Some (None, lowering_example
                   \<lparr>out := [''Log Error: Unkown variable name!''],
                    InsertPoint := Some (''bar'', 0),
                    NamedValues := [(''x'', Some (Argument ''bar'' 0)), (''y'', None)]\<rparr>)"
proof -
  let ?foo = "\<lparr>Proto = \<lparr>Name = ''foo'', Args = [''a'', ''b'']\<rparr>, Body = VariableExprAST ''y''\<rparr>"
  let ?bar = "\<lparr>Proto = \<lparr>Name = ''bar'', Args = [''x'']\<rparr>, Body = VariableExprAST ''y''\<rparr>"
  let ?s2 = "(enter_function ''foo'' lowering_example)
                   \<lparr>out := [''Log Error: Unkown variable name!''],
                    NamedValues := [(''a'', Some (Argument ''foo'' 0)),
                                    (''b'', Some (Argument ''foo'' 1)), (''y'', None)]\<rparr>"
  let ?s1 = "lowering_example\<lparr>TheModule :=
        \<lparr>FunctionList = [(''foo'', \<lparr>arg_names = [''a'', ''b''], blocks = []\<rparr>),
                          (''bar'', \<lparr>arg_names = [''x''], blocks = []\<rparr>)],
         LastUnique = 0\<rparr>\<rparr>"
  let ?s3 = "(enter_function ''bar'' ?s1)
                   \<lparr>out := [''Log Error: Unkown variable name!''],
                    NamedValues := [(''x'', Some (Argument ''bar'' 0)), (''y'', None)]\<rparr>"
  have g: "getFunction (TheModule lowering_example) ''foo'' = Some ''foo''" by code_simp
  have b: "codegen (VariableExprAST ''y'') (enter_function ''foo'' lowering_example) = Some (None, ?s2)"
    by code_simp
  have e: "?s2\<lparr>TheModule := eraseFromParent ''foo'' (TheModule ?s2)\<rparr> =
           lowering_example
                   \<lparr>out := [''Log Error: Unkown variable name!''],
                    TheModule := \<lparr>FunctionList = [], LastUnique = 0\<rparr>,
                    InsertPoint := Some (''foo'', 0),
                    NamedValues := [(''a'', Some (Argument ''foo'' 0)),
                                    (''b'', Some (Argument ''foo'' 1)), (''y'', None)]\<rparr>"
    by code_simp
  have e': "eraseFromParent ''foo'' (TheModule ?s2) = \<lparr>FunctionList = [], LastUnique = 0\<rparr>"
    by code_simp
  from failed_body_erases_function [of lowering_example ?foo "''foo''" ?s2] g b
  have 1: "FunctionAST_codegen ?foo lowering_example =
        Some (None, ?s2\<lparr>TheModule := eraseFromParent ''foo'' (TheModule ?s2)\<rparr>) \<and>
      getFunction (eraseFromParent ''foo'' (TheModule ?s2)) ''foo'' = None" by simp
  have g': "getFunction (TheModule lowering_example) ''bar'' = None" by code_simp
  have p: "PrototypeAST_codegen \<lparr>Name = ''bar'', Args = [''x'']\<rparr> lowering_example = (Some ''bar'', ?s1)"
    by code_simp
  have b': "codegen (VariableExprAST ''y'') (enter_function ''bar'' ?s1) = Some (None, ?s3)"
    by code_simp
  have e'': "?s3\<lparr>TheModule := eraseFromParent ''bar'' (TheModule ?s3)\<rparr> =
       lowering_example
                   \<lparr>out := [''Log Error: Unkown variable name!''],
                    InsertPoint := Some (''bar'', 0),
                    NamedValues := [(''x'', Some (Argument ''bar'' 0)), (''y'', None)]\<rparr>"
    by code_simp
  from failed_body_erases_function [of lowering_example ?bar "''bar''" ?s3 ?s1] g' p b'
  have 2: "FunctionAST_codegen ?bar lowering_example =
        Some (None, ?s3\<lparr>TheModule := eraseFromParent ''bar'' (TheModule ?s3)\<rparr>)"
    by simp
  from g b 1 e e' g' p 2 e'' show ?thesis by simp
qed

text \<open>
  C8. When a function of the name is already in the module, lowering a definition uses
  that handle: the result is the lowering of the body in the scope entered for the
  existing handle, and it is the same whatever parameter list the new prototype has, so
  neither the number nor the names of the new parameters are checked or used. The scope
  in which the body is lowered is built from the parameter names of the existing
  handle, and binds exactly these names.
\<close>

theorem redefinition_reuses_handle_and_its_parameters:
  "getFunction (TheModule s) n = Some F \<longrightarrow>
     FunctionAST_codegen \<lparr>Proto = \<lparr>Name = n, Args = new_params\<rparr>, Body = b\<rparr> s =
       (case codegen b (enter_function F s) of
          None \<Rightarrow> None
        | Some (Some RetVal, s2) \<Rightarrow> Some (Some F, emit (Ret RetVal) s2)
        | Some (None, s2) \<Rightarrow> Some (None, s2\<lparr>TheModule := eraseFromParent F (TheModule s2)\<rparr>)) \<and>
     FunctionAST_codegen \<lparr>Proto = \<lparr>Name = n, Args = new_params\<rparr>, Body = b\<rparr> s =
       FunctionAST_codegen \<lparr>Proto = \<lparr>Name = n, Args = other_params\<rparr>, Body = b\<rparr> s \<and>
     NamedValues (enter_function F s) = scope_of F (function_args (TheModule s) F) \<and>
     fst ` set (NamedValues (enter_function F s)) = set (function_args (TheModule s) F)"
  by (simp add: FunctionAST_codegen_def enter_function_scope scope_of_keys)

theorem redefinition_reuses_handle_and_its_parameters_witness:
  "getFunction (TheModule lowering_example) ''foo'' = Some ''foo'' \<and>
   function_args (TheModule lowering_example) ''foo'' = [''a'', ''b''] \<and>
   NamedValues (enter_function ''foo'' lowering_example) =
     [(''a'', Some (Argument ''foo'' 0)), (''b'', Some (Argument ''foo'' 1))] \<and>
   FunctionAST_codegen \<lparr>Proto = \<lparr>Name = ''foo'', Args = [''y'']\<rparr>, Body = VariableExprAST ''b''\<rparr>
       lowering_example =
     Some (Some ''foo'',
           lowering_example
             \<lparr>TheModule := \<lparr>FunctionList =
                  [(''foo'', \<lparr>arg_names = [''a'', ''b''], blocks = [[Ret (Argument ''foo'' 1)]]\<rparr>)],
                  LastUnique = 0\<rparr>,
              InsertPoint := Some (''foo'', 0),
              NamedValues := [(''a'', Some (Argument ''foo'' 0)), (''b'', Some (Argument ''foo'' 1))]\<rparr>) \<and>
   FunctionAST_codegen \<lparr>Proto = \<lparr>Name = ''foo'', Args = [''y'']\<rparr>, Body = VariableExprAST ''b''\<rparr>
       lowering_example =
   FunctionAST_codegen \<lparr>Proto = \<lparr>Name = ''foo'', Args = [''a'', ''b'']\<rparr>, Body = VariableExprAST ''b''\<rparr>
       lowering_example"
proof -
  let ?s = lowering_example
  let ?e = "enter_function ''foo'' lowering_example"
  have g: "getFunction (TheModule ?s) ''foo'' = Some ''foo''" by code_simp
  have a: "function_args (TheModule ?s) ''foo'' = [''a'', ''b'']" by code_simp
  have sc: "scope_of ''foo'' [''a'', ''b''] =
            [(''a'', Some (Argument ''foo'' 0)), (''b'', Some (Argument ''foo'' 1))]" by code_simp
  have b: "codegen (VariableExprAST ''b'') ?e = Some (Some (Argument ''foo'' 1), ?e)" by code_simp
  have r: "emit (Ret (Argument ''foo'' 1)) ?e =
           lowering_example
             \<lparr>TheModule := \<lparr>FunctionList =
                  [(''foo'', \<lparr>arg_names = [''a'', ''b''], blocks = [[Ret (Argument ''foo'' 1)]]\<rparr>)],
                  LastUnique = 0\<rparr>,
              InsertPoint := Some (''foo'', 0),
              NamedValues := [(''a'', Some (Argument ''foo'' 0)), (''b'', Some (Argument ''foo'' 1))]\<rparr>"
    by code_simp
  from redefinition_reuses_handle_and_its_parameters [of ?s "''foo''" "''foo''" "[''y'']"
      "VariableExprAST ''b''" "[''a'', ''b'']"] g
  have 1: "FunctionAST_codegen \<lparr>Proto = \<lparr>Name = ''foo'', Args = [''y'']\<rparr>, Body = VariableExprAST ''b''\<rparr> ?s =
       (case codegen (VariableExprAST ''b'') ?e of
          None \<Rightarrow> None
        | Some (Some RetVal, s2) \<Rightarrow> Some (Some ''foo'', emit (Ret RetVal) s2)
        | Some (None, s2) \<Rightarrow> Some (None, s2\<lparr>TheModule := eraseFromParent ''foo'' (TheModule s2)\<rparr>))"
    and 2: "FunctionAST_codegen \<lparr>Proto = \<lparr>Name = ''foo'', Args = [''y'']\<rparr>, Body = VariableExprAST ''b''\<rparr> ?s =
       FunctionAST_codegen \<lparr>Proto = \<lparr>Name = ''foo'', Args = [''a'', ''b'']\<rparr>, Body = VariableExprAST ''b''\<rparr> ?s"
    and 3: "NamedValues ?e = scope_of ''foo'' (function_args (TheModule ?s) ''foo'')"
    by blast+
  from 1 b r have 4: "FunctionAST_codegen \<lparr>Proto = \<lparr>Name = ''foo'', Args = [''y'']\<rparr>, Body = VariableExprAST ''b''\<rparr> ?s =
     Some (Some ''foo'',
           lowering_example
             \<lparr>TheModule := \<lparr>FunctionList =
                  [(''foo'', \<lparr>arg_names = [''a'', ''b''], blocks = [[Ret (Argument ''foo'' 1)]]\<rparr>)],
                  LastUnique = 0\<rparr>,
              InsertPoint := Some (''foo'', 0),
              NamedValues := [(''a'', Some (Argument ''foo'' 0)), (''b'', Some (Argument ''foo'' 1))]\<rparr>)"
    by simp
  from 3 a sc have 5: "NamedValues ?e = [(''a'', Some (Argument ''foo'' 0)), (''b'', Some (Argument ''foo'' 1))]"
    by simp
  from g a 5 4 2 show ?thesis by blast
qed

text \<open>
  C9. Once the lexer has reached the end of the input it yields \<open>tok_eof\<close>, and so does
  every later call: with \<open>EOF\<close> in the lookahead \<open>gettok\<close> returns \<open>tok_eof\<close> and leaves
  the state as it is, and after any call that returned \<open>tok_eof\<close> every number of
  further calls returns \<open>tok_eof\<close> again.
\<close>

theorem gettok_eof_absorbing:
  "(LastChar s = EOF \<longrightarrow> gettok s = (tok_eof, s)) \<and>
   (fst (gettok s) = tok_eof \<longrightarrow>
      (\<forall>n. fst (gettok (((\<lambda>s. snd (gettok s)) ^^ n) (snd (gettok s)))) = tok_eof))"
proof (intro conjI impI allI)
  assume "LastChar s = EOF"
  then show "gettok s = (tok_eof, s)" by (rule gettok_at_EOF)
next
  fix n
  assume "fst (gettok s) = tok_eof"
  then have e: "LastChar (snd (gettok s)) = EOF" by (rule gettok_eof_LastChar)
  then have "((\<lambda>s. snd (gettok s)) ^^ n) (snd (gettok s)) = snd (gettok s)"
    by (rule funpow_gettok_EOF)
  with e show "fst (gettok (((\<lambda>s. snd (gettok s)) ^^ n) (snd (gettok s)))) = tok_eof"
    by (simp add: gettok_at_EOF)
qed

theorem gettok_eof_absorbing_witness:
  "LastChar (snd (gettok (initial ''x''))) = EOF \<and>
   gettok (snd (gettok (initial ''x''))) = (tok_eof, snd (gettok (initial ''x''))) \<and>
   fst (gettok (initial '' '')) = tok_eof \<and>
   fst (gettok (snd (gettok (snd (gettok (snd (gettok (initial '' ''))))))) ) = tok_eof"
proof -
  have a: "LastChar (snd (gettok (initial ''x''))) = EOF" by code_simp
  have b: "fst (gettok (initial '' '')) = tok_eof" by code_simp
  from gettok_eof_absorbing [of "snd (gettok (initial ''x''))"] a
  have c: "gettok (snd (gettok (initial ''x''))) = (tok_eof, snd (gettok (initial ''x'')))"
    by blast
  from gettok_eof_absorbing [of "initial '' ''"] b
  have "fst (gettok (((\<lambda>s. snd (gettok s)) ^^ 2) (snd (gettok (initial '' ''))))) = tok_eof"
    by blast
  then have d: "fst (gettok (snd (gettok (snd (gettok (snd (gettok (initial '' ''))))))) ) = tok_eof"
    by (simp add: numeral_2_eq_2)
  from a b c d show ?thesis by blast
qed

text \<open>
  C10. Parsing a top-level expression returns on every input, and an expression that
  parses is wrapped as the body of a function whose prototype is named \<open>__anon_expr\<close>
  and has no parameters (a function so returned has that prototype and the parsed
  expression as its body). The text of an identifier token consists of letters and
  digits only, so it is never \<open>__anon_expr\<close>; hence neither a definition nor an extern
  declaration that parses can carry that name.
\<close>

theorem anonymous_function_name_reserved:
  "(\<exists>k r. ParseTopLevelExpr k s = Some r) \<and>
   (ParseExpression n s = Some (Some E, s') \<longrightarrow>
      ParseTopLevelExpr n s =
        Some (Some \<lparr>Proto = \<lparr>Name = ''__anon_expr'', Args = []\<rparr>, Body = E\<rparr>, s')) \<and>
   (ParseTopLevelExpr n s = Some (Some Fn, s') \<longrightarrow>
      Proto Fn = \<lparr>Name = ''__anon_expr'', Args = []\<rparr> \<and>
      ParseExpression n s = Some (Some (Body Fn), s')) \<and>
   (- 1 \<le> LastChar s \<and> fst (gettok s) = tok_identifier \<longrightarrow>
      list_all (\<lambda>c. isalnum (of_char c)) (IdentifierStr (snd (gettok s))) \<and>
      IdentifierStr (snd (gettok s)) \<noteq> ''__anon_expr'') \<and>
   (- 1 \<le> LastChar s \<and> ParseDefinition n s = Some (Some Fn, s') \<longrightarrow>
      Name (Proto Fn) \<noteq> ''__anon_expr'') \<and>
   (- 1 \<le> LastChar s \<and> ParseExtern s = (Some P, s') \<longrightarrow> Name P \<noteq> ''__anon_expr'')"
proof (intro conjI impI)
  show "\<exists>k r. ParseTopLevelExpr k s = Some r" by (rule ParseTopLevelExpr_total)
next
  assume "ParseExpression n s = Some (Some E, s')"
  then show "ParseTopLevelExpr n s =
        Some (Some \<lparr>Proto = \<lparr>Name = ''__anon_expr'', Args = []\<rparr>, Body = E\<rparr>, s')"
    by (simp add: ParseTopLevelExpr_def)
next
  assume "ParseTopLevelExpr n s = Some (Some Fn, s')"
  then show "Proto Fn = \<lparr>Name = ''__anon_expr'', Args = []\<rparr>"
    and "ParseExpression n s = Some (Some (Body Fn), s')"
    by (auto simp: ParseTopLevelExpr_def split: option.splits prod.splits)
next
  assume a: "- 1 \<le> LastChar s \<and> fst (gettok s) = tok_identifier"
  then show al: "list_all (\<lambda>c. isalnum (of_char c)) (IdentifierStr (snd (gettok s)))"
    using gettok_identifier_alnum by blast
  then show "IdentifierStr (snd (gettok s)) \<noteq> ''__anon_expr''"
    using anon_expr_not_alnum by metis
next
  assume "- 1 \<le> LastChar s \<and> ParseDefinition n s = Some (Some Fn, s')"
  then have "list_all (\<lambda>c. isalnum (of_char c)) (Name (Proto Fn))"
    using ParseDefinition_name by blast
  then show "Name (Proto Fn) \<noteq> ''__anon_expr''"
    using anon_expr_not_alnum by metis
next
  assume "- 1 \<le> LastChar s \<and> ParseExtern s = (Some P, s')"
  then have "list_all (\<lambda>c. isalnum (of_char c)) (Name P)"
    using ParseExtern_name by blast
  then show "Name P \<noteq> ''__anon_expr''"
    using anon_expr_not_alnum by metis
qed

theorem anonymous_function_name_reserved_witness:
  "ParseTopLevelExpr 5 (start ''x+y'') =
     Some (Some \<lparr>Proto = \<lparr>Name = ''__anon_expr'', Args = []\<rparr>,
                  Body = BinaryExprAST CHR ''+'' (Some (VariableExprAST ''x''))
                                                 (Some (VariableExprAST ''y''))\<rparr>,
           (initial [])\<lparr>LastChar := EOF, IdentifierStr := ''y'', CurTok := tok_eof\<rparr>) \<and>
   ParseExpression 5 (start ''x+y'') =
     Some (Some (BinaryExprAST CHR ''+'' (Some (VariableExprAST ''x''))
                                         (Some (VariableExprAST ''y''))),
           (initial [])\<lparr>LastChar := EOF, IdentifierStr := ''y'', CurTok := tok_eof\<rparr>) \<and>
   - 1 \<le> LastChar (initial ''anon1 '') \<and>
   fst (gettok (initial ''anon1 '')) = tok_identifier \<and>
   IdentifierStr (snd (gettok (initial ''anon1 ''))) \<noteq> ''__anon_expr'' \<and>
   ParseDefinition 5 (start ''def f(x) x'') =
     Some (Some \<lparr>Proto = \<lparr>Name = ''f'', Args = [''x'']\<rparr>, Body = VariableExprAST ''x''\<rparr>,
           (initial [])\<lparr>LastChar := EOF, IdentifierStr := ''x'', CurTok := tok_eof\<rparr>) \<and>
   ''f'' \<noteq> ''__anon_expr'' \<and>
   ParseExtern (start ''extern g(x y)'') =
     (Some \<lparr>Name = ''g'', Args = [''x'', ''y'']\<rparr>,
      (initial [])\<lparr>LastChar := EOF, IdentifierStr := ''y'', CurTok := tok_eof\<rparr>) \<and>
   ''g'' \<noteq> ''__anon_expr''"
proof -
  let ?top = "\<lparr>Proto = \<lparr>Name = ''__anon_expr'', Args = []\<rparr>,
                Body = BinaryExprAST CHR ''+'' (Some (VariableExprAST ''x''))
                                               (Some (VariableExprAST ''y''))\<rparr>"
  let ?fin = "\<lambda>x. (initial [])\<lparr>LastChar := EOF, IdentifierStr := x, CurTok := tok_eof\<rparr>"
  have x: "ParseExpression 5 (start ''x+y'') =
     Some (Some (BinaryExprAST CHR ''+'' (Some (VariableExprAST ''x'')) (Some (VariableExprAST ''y''))),
           ?fin ''y'')"
    by code_simp
  have v: "- 1 \<le> LastChar (initial ''anon1 '')" by code_simp
  have i: "fst (gettok (initial ''anon1 '')) = tok_identifier" by code_simp
  have v': "- 1 \<le> LastChar (start ''def f(x) x'')" by code_simp
  have d: "ParseDefinition 5 (start ''def f(x) x'') =
     Some (Some \<lparr>Proto = \<lparr>Name = ''f'', Args = [''x'']\<rparr>, Body = VariableExprAST ''x''\<rparr>, ?fin ''x'')"
    by code_simp
  have v'': "- 1 \<le> LastChar (start ''extern g(x y)'')" by code_simp
  have e: "ParseExtern (start ''extern g(x y)'') =
     (Some \<lparr>Name = ''g'', Args = [''x'', ''y'']\<rparr>, ?fin ''y'')"
    by code_simp
  let ?E = "BinaryExprAST CHR ''+'' (Some (VariableExprAST ''x'')) (Some (VariableExprAST ''y''))"
  let ?f = "\<lparr>Proto = \<lparr>Name = ''f'', Args = [''x'']\<rparr>, Body = VariableExprAST ''x''\<rparr>"
  let ?g = "\<lparr>Name = ''g'', Args = [''x'', ''y'']\<rparr>"
  from anonymous_function_name_reserved [where s = "start ''x+y''" and n = 5
      and E = ?E and s' = "?fin ''y''" and Fn = ?top and P = ?g]
  have "ParseExpression 5 (start ''x+y'') = Some (Some ?E, ?fin ''y'') \<longrightarrow>
        ParseTopLevelExpr 5 (start ''x+y'') = Some (Some ?top, ?fin ''y'')"
    by (rule conjunct2 [THEN conjunct1])
  with x have t: "ParseTopLevelExpr 5 (start ''x+y'') = Some (Some ?top, ?fin ''y'')"
    by (rule rev_mp)
  note 1 = x
  from anonymous_function_name_reserved [where s = "initial ''anon1 ''" and n = 5
      and E = ?E and s' = "?fin ''y''" and Fn = ?top and P = ?g]
  have "- 1 \<le> LastChar (initial ''anon1 '') \<and> fst (gettok (initial ''anon1 '')) = tok_identifier \<longrightarrow>
        list_all (\<lambda>c. isalnum (of_char c)) (IdentifierStr (snd (gettok (initial ''anon1 '')))) \<and>
        IdentifierStr (snd (gettok (initial ''anon1 ''))) \<noteq> ''__anon_expr''"
    by (rule conjunct2 [THEN conjunct2, THEN conjunct2, THEN conjunct1])
  with v i have 2: "IdentifierStr (snd (gettok (initial ''anon1 ''))) \<noteq> ''__anon_expr''"
    by (elim impE conjE) (rule conjI, assumption+)
  from anonymous_function_name_reserved [where s = "start ''def f(x) x''" and n = 5
      and E = ?E and s' = "?fin ''x''" and Fn = ?f and P = ?g]
  have "- 1 \<le> LastChar (start ''def f(x) x'') \<and>
        ParseDefinition 5 (start ''def f(x) x'') = Some (Some ?f, ?fin ''x'') \<longrightarrow>
        Name (Proto ?f) \<noteq> ''__anon_expr''"
    by (rule conjunct2 [THEN conjunct2, THEN conjunct2, THEN conjunct2, THEN conjunct1])
  with v' d have 3: "Name (Proto ?f) \<noteq> ''__anon_expr''"
    by (elim impE) (rule conjI, assumption+)
  from anonymous_function_name_reserved [where s = "start ''extern g(x y)''" and n = 5
      and E = ?E and s' = "?fin ''y''" and Fn = ?f and P = ?g]
  have "- 1 \<le> LastChar (start ''extern g(x y)'') \<and>
        ParseExtern (start ''extern g(x y)'') = (Some ?g, ?fin ''y'') \<longrightarrow>
        Name ?g \<noteq> ''__anon_expr''"
    by (rule conjunct2 [THEN conjunct2, THEN conjunct2, THEN conjunct2, THEN conjunct2])
  with v'' e have 4: "Name ?g \<noteq> ''__anon_expr''"
    by (elim impE) (rule conjI, assumption+)
  have 5: "''f'' \<noteq> ''__anon_expr''" "''g'' \<noteq> ''__anon_expr''" by simp_all
  from t 1 v i 2 d 5 e show ?thesis by (intro conjI)
qed

end
